theory Spec2Isabelle
  imports Complex_Main "HOL-Library.Log_Nat"
begin

text \<open>
  A model of \<^verbatim>\<open>src/color.ts\<close>: the conversions between hex strings, RGB, HSL and YUV, and the
  class \<^verbatim>\<open>Color\<close> with its lazily filled containers. The definitions come first, in the
  order of the source; the lemmas and the properties of the specification follow.
\<close>

section \<open>Strings\<close>

text \<open>
  A JavaScript string is modelled as a \<^typ>\<open>string\<close>, one \<^typ>\<open>char\<close> per code unit
  (code units below 256). The helpers below are the \<^verbatim>\<open>String.prototype\<close> methods that
  \<^verbatim>\<open>src/color.ts\<close> calls, including what they do out of range.
\<close>

definition charAt :: "string \<Rightarrow> nat \<Rightarrow> string" where
  \<comment> \<open>\<^verbatim>\<open>s.charAt(i)\<close>: the one-character string at \<open>i\<close>, the empty string out of range.\<close>
  "charAt s i = (if i < length s then [s ! i] else [])"

definition substring :: "string \<Rightarrow> nat \<Rightarrow> nat \<Rightarrow> string" where
  \<comment> \<open>\<^verbatim>\<open>s.substring(a, b)\<close>: both indices clamped to the length, swapped when \<open>a > b\<close>.\<close>
  "substring s a b =
     (let a' = min a (length s); b' = min b (length s)
      in take (max a' b' - min a' b') (drop (min a' b') s))"

definition padStart :: "string \<Rightarrow> nat \<Rightarrow> char \<Rightarrow> string" where
  \<comment> \<open>\<^verbatim>\<open>s.padStart(n, c)\<close> with a one-character pad string.\<close>
  "padStart s n c = replicate (n - length s) c @ s"

definition code :: "char \<Rightarrow> nat" where
  "code c = of_char c"

definition isDigit :: "char \<Rightarrow> bool" where
  "isDigit c = (48 \<le> code c \<and> code c \<le> 57)"

definition isHexDigit :: "char \<Rightarrow> bool" where
  \<comment> \<open>\<^verbatim>\<open>0-9\<close>, \<^verbatim>\<open>A-F\<close>, \<^verbatim>\<open>a-f\<close>\<close>
  "isHexDigit c =
     (isDigit c \<or> (65 \<le> code c \<and> code c \<le> 70) \<or> (97 \<le> code c \<and> code c \<le> 102))"

definition nonHexLetter :: "char \<Rightarrow> bool" where
  \<comment> \<open>the character class \<^verbatim>\<open>[G-Zg-z]\<close> of the regular expression in \<^verbatim>\<open>normalizeHex\<close>\<close>
  "nonHexLetter c = ((71 \<le> code c \<and> code c \<le> 90) \<or> (103 \<le> code c \<and> code c \<le> 122))"

definition toLowerCase :: "string \<Rightarrow> string" where
  \<comment> \<open>\<^verbatim>\<open>s.toLowerCase()\<close> on the letters \<^verbatim>\<open>A-Z\<close>\<close>
  "toLowerCase s =
     map (\<lambda>c. if 65 \<le> code c \<and> code c \<le> 90 then char_of (code c + 32) else c) s"

subsection \<open>\<^verbatim>\<open>parseInt(s, 16)\<close> and \<^verbatim>\<open>n.toString(16)\<close>\<close>

definition hexValue :: "char \<Rightarrow> int" where
  "hexValue c =
     (if isDigit c then int (code c) - 48
      else if 97 \<le> code c then int (code c) - 87
      else int (code c) - 55)"

definition isWhiteSpace :: "char \<Rightarrow> bool" where
  \<comment> \<open>the white space and line terminators below 256 that \<^verbatim>\<open>parseInt\<close> skips\<close>
  "isWhiteSpace c = (code c \<in> {9, 10, 11, 12, 13, 32, 160})"

definition parseInt16 :: "string \<Rightarrow> int option" where
  \<comment> \<open>\<^verbatim>\<open>parseInt(s, 16)\<close>: leading white space, a sign, an optional \<^verbatim>\<open>0x\<close>, then the
      longest run of hex digits; \<open>None\<close> is \<^verbatim>\<open>NaN\<close> (no digit at all).\<close>
  "parseInt16 s =
     (let s1 = dropWhile isWhiteSpace s;
          neg = (take 1 s1 = ''-'');
          s2 = (if take 1 s1 = ''-'' \<or> take 1 s1 = ''+'' then drop 1 s1 else s1);
          s3 = (if take 2 s2 = ''0x'' \<or> take 2 s2 = ''0X'' then drop 2 s2 else s2);
          ds = takeWhile isHexDigit s3;
          n = foldl (\<lambda>a c. 16 * a + hexValue c) 0 ds
      in if ds = [] then None else Some (if neg then - n else n))"

definition hexDigitOf :: "nat \<Rightarrow> char" where
  \<comment> \<open>the digit \<^verbatim>\<open>toString(16)\<close> writes for a value below 16 (lower case)\<close>
  "hexDigitOf d = (if d < 10 then char_of (48 + d) else char_of (87 + d))"

function hexDigits :: "nat \<Rightarrow> string" where
  "hexDigits n = (if n < 16 then [hexDigitOf n] else hexDigits (n div 16) @ [hexDigitOf (n mod 16)])"
  by pat_completeness auto

termination
  by (relation "measure id") auto

declare hexDigits.simps [simp del]

definition toString16 :: "int \<Rightarrow> string" where
  \<comment> \<open>\<^verbatim>\<open>n.toString(16)\<close> of an integer: a minus sign, then the digits of \<open>|n|\<close>\<close>
  "toString16 n = (if n < 0 then ''-'' @ hexDigits (nat (- n)) else hexDigits (nat n))"

section \<open>The representations\<close>

text \<open>
  The interfaces \<^verbatim>\<open>RGB\<close>, \<^verbatim>\<open>HSL\<close> and \<^verbatim>\<open>YUV\<close>. A JavaScript \<^verbatim>\<open>number\<close> is modelled
  by an exact number: the channels of an RGB triple are integers (``0 to 255'' in the
  source; every producer in the class is \<^verbatim>\<open>parseInt\<close> or \<^verbatim>\<open>Math.round\<close>), the
  components of HSL and YUV, alpha, percentages and weights are reals. A JavaScript number
  is a double, and every operation on doubles rounds its result. The model writes this
  rounding out (\<open>fl\<close>, below) in \<^verbatim>\<open>mix\<close>, \<^verbatim>\<open>perceivedBrightness\<close> and \<^verbatim>\<open>contrast\<close>, where the
  source floors a computed number or divides one by another; the conversions between RGB,
  HSL and YUV and the transformations compute with exact numbers. Infinities and
  \<^verbatim>\<open>NaN\<close> are not represented: a \<^verbatim>\<open>NaN\<close> channel is the value \<open>None\<close> where \<^verbatim>\<open>parseInt\<close>
  produces it, and a division by zero is the error \<open>NotNumeric\<close>.
\<close>

record RGB =
  rgb_r :: int
  rgb_g :: int
  rgb_b :: int

record HSL =
  hsl_h :: real
  hsl_s :: real
  hsl_l :: real

record YUV =
  yuv_y :: real
  yuv_u :: real
  yuv_v :: real

section \<open>Converters\<close>

definition normalizeHex :: "string \<Rightarrow> string option" where
  \<comment> \<open>\<^verbatim>\<open>Color.normalizeHex\<close>; \<open>None\<close> is \<^verbatim>\<open>null\<close>\<close>
  "normalizeHex source =
     (if source = [] \<or> list_ex nonHexLetter source then None
      else if charAt source 0 = ''#'' \<and> charAt (substring source 1 (length source)) 0 = ''#''
      then None
      else
        let normalized =
              (if charAt source 0 = ''#'' then substring source 1 (length source) else source)
        in if length normalized < 2 then None
           else if length normalized = 2 then
             Some (charAt normalized 0 @ charAt normalized 1 @ charAt normalized 0 @
                   charAt normalized 1 @ charAt normalized 0 @ charAt normalized 1)
           else if length normalized = 3 then
             Some (charAt normalized 0 @ charAt normalized 0 @ charAt normalized 1 @
                   charAt normalized 1 @ charAt normalized 2 @ charAt normalized 2)
           else if length normalized \<noteq> 6 then None
           else Some normalized)"

definition hexToRgb :: "string \<Rightarrow> RGB option" where
  \<comment> \<open>\<^verbatim>\<open>Color.hexToRgb\<close>; \<open>None\<close> when \<^verbatim>\<open>parseInt\<close> gives \<^verbatim>\<open>NaN\<close> for a channel\<close>
  "hexToRgb hex0 =
     (let hex = (if charAt hex0 0 = ''#'' then substring hex0 1 (length hex0) else hex0)
      in case (parseInt16 (substring hex 0 2), parseInt16 (substring hex 2 4),
               parseInt16 (substring hex 4 6)) of
           (Some r, Some g, Some b) \<Rightarrow> Some \<lparr>rgb_r = r, rgb_g = g, rgb_b = b\<rparr>
         | _ \<Rightarrow> None)"

definition rgbToHex :: "RGB \<Rightarrow> string" where
  "rgbToHex rgb =
     padStart (toString16 (rgb_r rgb)) 2 CHR ''0'' @
     padStart (toString16 (rgb_g rgb)) 2 CHR ''0'' @
     padStart (toString16 (rgb_b rgb)) 2 CHR ''0''"

subsection \<open>Numbers\<close>

definition js_round :: "real \<Rightarrow> int" where
  \<comment> \<open>\<^verbatim>\<open>Math.round\<close>: the nearest integer, a tie going up\<close>
  "js_round x = \<lfloor>x + 1 / 2\<rfloor>"

definition js_trunc :: "real \<Rightarrow> int" where
  "js_trunc x = (if 0 \<le> x then \<lfloor>x\<rfloor> else \<lceil>x\<rceil>)"

definition js_rem :: "real \<Rightarrow> real \<Rightarrow> real" where
  \<comment> \<open>the remainder operator \<^verbatim>\<open>n % m\<close> of JavaScript (for \<open>m \<noteq> 0\<close>): it truncates the
      quotient towards zero, so the result has the sign of \<open>n\<close>\<close>
  "js_rem n m = n - m * real_of_int (js_trunc (n / m))"

definition modulo :: "real \<Rightarrow> real \<Rightarrow> real" where
  \<comment> \<open>\<^verbatim>\<open>Color.modulo\<close>: \<^verbatim>\<open>((n % m) + m) % m\<close>\<close>
  "modulo n m = js_rem (js_rem n m + m) m"

subsection \<open>Doubles\<close>

text \<open>
  An arithmetic operation of JavaScript returns the double (IEEE 754 binary64) nearest to
  the exact result, a tie going to the double whose last bit is 0. \<open>fl x\<close> is that double:
  \<open>expo y\<close> is the binary exponent of a positive \<open>y\<close>, that is \<open>2 powi expo y \<le> y < 2 powi
  (expo y + 1)\<close>; \<open>ulp x\<close> is the distance between the doubles around \<open>x\<close>, with 52 bits after
  the leading one and the exponent -1022 for the subnormal numbers; \<open>rhe\<close> rounds to the
  nearest integer, a tie to the even one. A result beyond the largest double is not
  represented.
\<close>

definition rhe :: "real \<Rightarrow> int" where
  "rhe y =
     (let f = \<lfloor>y\<rfloor>; d = y - of_int f
      in if d < 1 / 2 then f else if 1 / 2 < d then f + 1 else if even f then f else f + 1)"

definition expo :: "real \<Rightarrow> int" where
  "expo y = (if 1 \<le> y then bitlen \<lfloor>y\<rfloor> - 1 else - bitlen (\<lceil>1 / y\<rceil> - 1))"

definition ulp :: "real \<Rightarrow> real" where
  "ulp x = 2 powi (max (expo \<bar>x\<bar>) (- 1022) - 52)"

definition fl :: "real \<Rightarrow> real" where
  "fl x = (if x = 0 then 0 else ulp x * of_int (rhe (x / ulp x)))"

definition dadd :: "real \<Rightarrow> real \<Rightarrow> real" where
  \<comment> \<open>\<^verbatim>\<open>x + y\<close> on doubles\<close>
  "dadd x y = fl (x + y)"

definition dsub :: "real \<Rightarrow> real \<Rightarrow> real" where
  \<comment> \<open>\<^verbatim>\<open>x - y\<close> on doubles\<close>
  "dsub x y = fl (x - y)"

definition dmul :: "real \<Rightarrow> real \<Rightarrow> real" where
  \<comment> \<open>\<^verbatim>\<open>x * y\<close> on doubles\<close>
  "dmul x y = fl (x * y)"

definition ddiv :: "real \<Rightarrow> real \<Rightarrow> real" where
  \<comment> \<open>\<^verbatim>\<open>x / y\<close> on doubles, for \<open>y \<noteq> 0\<close>\<close>
  "ddiv x y = fl (x / y)"

subsection \<open>RGB, HSL and YUV\<close>

definition rgbToHsl :: "RGB \<Rightarrow> HSL" where
  \<comment> \<open>\<^verbatim>\<open>Color.rgbToHsl\<close>. The \<^verbatim>\<open>switch (max)\<close> takes the first of \<open>r\<close>, \<open>g\<close>, \<open>b\<close> that
      equals the maximum; one of them does.\<close>
  "rgbToHsl rgb =
     (let r = real_of_int (rgb_r rgb) / 255;
          g = real_of_int (rgb_g rgb) / 255;
          b = real_of_int (rgb_b rgb) / 255;
          mx = max r (max g b);
          mn = min r (min g b);
          l = (mx + mn) / 2
      in if mx = mn then \<lparr>hsl_h = 0, hsl_s = 0, hsl_l = l\<rparr>
         else
           let d = mx - mn;
               s = (if l > 0.5 then d / (2 - mx - mn) else d / (mx + mn));
               h = (if mx = r then (g - b) / d + (if g < b then 6 else 0)
                    else if mx = g then (b - r) / d + 2
                    else (r - g) / d + 4)
           in \<lparr>hsl_h = h / 6, hsl_s = s, hsl_l = l\<rparr>)"

definition hue2rgb :: "real \<Rightarrow> real \<Rightarrow> real \<Rightarrow> real" where
  \<comment> \<open>the local function \<^verbatim>\<open>hue2rgb\<close> of \<^verbatim>\<open>Color.hslToRgb\<close>\<close>
  "hue2rgb p q t0 =
     (let t1 = (if t0 < 0 then t0 + 1 else t0);
          t = (if t1 > 1 then t1 - 1 else t1)
      in if t < 1 / 6 then p + (q - p) * 6 * t
         else if t < 1 / 2 then q
         else if t < 2 / 3 then p + (q - p) * (2 / 3 - t) * 6
         else p)"

definition hslToRgb :: "HSL \<Rightarrow> RGB" where
  "hslToRgb hsl =
     (if hsl_s hsl = 0 then
        \<lparr>rgb_r = js_round (hsl_l hsl * 255), rgb_g = js_round (hsl_l hsl * 255),
         rgb_b = js_round (hsl_l hsl * 255)\<rparr>
      else
        let q = (if hsl_l hsl < 0.5 then hsl_l hsl * (1 + hsl_s hsl)
                 else hsl_l hsl + hsl_s hsl - hsl_l hsl * hsl_s hsl);
            p = 2 * hsl_l hsl - q
        in \<lparr>rgb_r = js_round (hue2rgb p q (hsl_h hsl + 1 / 3) * 255),
            rgb_g = js_round (hue2rgb p q (hsl_h hsl) * 255),
            rgb_b = js_round (hue2rgb p q (hsl_h hsl - 1 / 3) * 255)\<rparr>)"

definition hexToHsl :: "string \<Rightarrow> HSL option" where
  \<comment> \<open>\<^verbatim>\<open>Color.hexToHsl\<close>; \<open>None\<close> when \<^verbatim>\<open>hexToRgb\<close> has a \<^verbatim>\<open>NaN\<close> channel\<close>
  "hexToHsl hex =
     (if hex = [] then Some \<lparr>hsl_h = 0, hsl_s = 0, hsl_l = 0\<rparr>
      else map_option rgbToHsl (hexToRgb hex))"

definition rgbToYuv :: "RGB \<Rightarrow> YUV" where
  "rgbToYuv rgb =
     (let r = real_of_int (rgb_r rgb) / 255;
          g = real_of_int (rgb_g rgb) / 255;
          b = real_of_int (rgb_b rgb) / 255
      in \<lparr>yuv_y = 0.257 * r + 0.504 * g + 0.098 * b + 16,
          yuv_u = - 0.148 * r - 0.291 * g + 0.439 * b + 128,
          yuv_v = 0.439 * r - 0.368 * g - 0.071 * b + 128\<rparr>)"

definition yuvToRgb :: "YUV \<Rightarrow> RGB" where
  "yuvToRgb yuv =
     (let y = yuv_y yuv - 16; u = yuv_u yuv - 128; v = yuv_v yuv - 128
      in \<lparr>rgb_r = \<bar>js_round ((1.164 * y + 1.596 * v) * 255)\<bar>,
          rgb_g = \<bar>js_round ((1.164 * y - 0.392 * u - 0.813 * v) * 255)\<bar>,
          rgb_b = \<bar>js_round ((1.164 * y + 2.017 * u) * 255)\<bar>\<rparr>)"

section \<open>The class \<^verbatim>\<open>Color\<close>\<close>

text \<open>
  A \<^verbatim>\<open>Color\<close> is an object with four nullable containers and \<^verbatim>\<open>alpha\<close>; its getters fill
  the containers in place, and \<^verbatim>\<open>withHue\<close>, \<^verbatim>\<open>withSaturation\<close> and \<^verbatim>\<open>withLightness\<close>
  assign to a field of the object behind \<^verbatim>\<open>hslContainer\<close>. So the objects live in a store:
  \<open>colors\<close> holds the \<^verbatim>\<open>Color\<close> objects and \<open>hsls\<close> the \<^verbatim>\<open>HSL\<close> objects, an address is an
  index, and \<open>hslContainer\<close> is the address of an \<^verbatim>\<open>HSL\<close> object. The \<^verbatim>\<open>RGB\<close> and
  \<^verbatim>\<open>YUV\<close> objects of a container are never written after they are created (the
  constructor copies its argument field by field, the converters build a new object), so
  they are held by value. JavaScript has no dangling reference: the model is about stores
  whose addresses are all allocated.
\<close>

datatype error =
    OneComponentMustBeSet  \<comment> \<open>\<^verbatim>\<open>'One component must be set'\<close>\<close>
  | InvalidHexValue  \<comment> \<open>\<^verbatim>\<open>'Invalid hex value: ...'\<close>\<close>
  | CouldNotCalculateHex  \<comment> \<open>\<^verbatim>\<open>'Could not calculate hex value'\<close>\<close>
  | CouldNotCalculateRGB  \<comment> \<open>\<^verbatim>\<open>'Could not calculate RGB values'\<close>\<close>
  | CouldNotCalculateHSL  \<comment> \<open>\<^verbatim>\<open>'Could not calculate HSL values'\<close>\<close>
  | JSONParseError  \<comment> \<open>whatever \<^verbatim>\<open>JSON.parse\<close> raises\<close>
  | NotNumeric  \<comment> \<open>not raised by the source: the result has a component (\<^verbatim>\<open>NaN\<close>, a string,
      \<^verbatim>\<open>undefined\<close>) that the exact numbers of the model do not represent\<close>

record Color =
  hexContainer :: "string option"
  rgbContainer :: "RGB option"
  hslContainer :: "nat option"
  yuvContainer :: "YUV option"
  alpha :: real

record store =
  colors :: "Color list"
  hsls :: "HSL list"

definition bindE :: "error + 'a \<Rightarrow> ('a \<Rightarrow> error + 'b) \<Rightarrow> error + 'b" where
  \<comment> \<open>sequencing: an exception of the first step is the exception of the whole\<close>
  "bindE m f = (case m of Inl e \<Rightarrow> Inl e | Inr x \<Rightarrow> f x)"

definition truthy :: "string option \<Rightarrow> bool" where
  \<comment> \<open>\<^verbatim>\<open>null\<close> and the empty string are falsy\<close>
  "truthy h = (h \<noteq> None \<and> h \<noteq> Some [])"

definition alloc_hsl :: "HSL \<Rightarrow> store \<Rightarrow> nat \<times> store" where
  "alloc_hsl v \<sigma> = (length (hsls \<sigma>), \<sigma>\<lparr>hsls := hsls \<sigma> @ [v]\<rparr>)"

definition alloc_color :: "Color \<Rightarrow> store \<Rightarrow> nat \<times> store" where
  "alloc_color obj \<sigma> = (length (colors \<sigma>), \<sigma>\<lparr>colors := colors \<sigma> @ [obj]\<rparr>)"

definition set_color :: "nat \<Rightarrow> (Color \<Rightarrow> Color) \<Rightarrow> store \<Rightarrow> store" where
  "set_color c f \<sigma> = \<sigma>\<lparr>colors := (colors \<sigma>)[c := f (colors \<sigma> ! c)]\<rparr>"

definition set_hsl :: "nat \<Rightarrow> (HSL \<Rightarrow> HSL) \<Rightarrow> store \<Rightarrow> store" where
  "set_hsl a f \<sigma> = \<sigma>\<lparr>hsls := (hsls \<sigma>)[a := f (hsls \<sigma> ! a)]\<rparr>"

subsection \<open>Construction\<close>

definition new_Color ::
  "string option \<Rightarrow> RGB option \<Rightarrow> HSL option \<Rightarrow> YUV option \<Rightarrow> real \<Rightarrow> store \<Rightarrow> error + nat \<times> store"
where
  \<comment> \<open>the constructor: the first argument that is set becomes the one container, copied\<close>
  "new_Color hex rgb hsl yuv a \<sigma> =
     (if \<not> (truthy hex \<or> rgb \<noteq> None \<or> hsl \<noteq> None \<or> yuv \<noteq> None) then Inl OneComponentMustBeSet
      else if truthy hex then
        Inr (alloc_color \<lparr>hexContainer = hex, rgbContainer = None, hslContainer = None,
                          yuvContainer = None, alpha = a\<rparr> \<sigma>)
      else case rgb of
        Some v \<Rightarrow>
          Inr (alloc_color
                 \<lparr>hexContainer = None,
                  rgbContainer = Some \<lparr>rgb_r = rgb_r v, rgb_g = rgb_g v, rgb_b = rgb_b v\<rparr>,
                  hslContainer = None, yuvContainer = None, alpha = a\<rparr> \<sigma>)
      | None \<Rightarrow>
         (case hsl of
            Some v \<Rightarrow>
              (let (ref, \<sigma>1) = alloc_hsl \<lparr>hsl_h = hsl_h v, hsl_s = hsl_s v, hsl_l = hsl_l v\<rparr> \<sigma>
               in Inr (alloc_color
                         \<lparr>hexContainer = None, rgbContainer = None, hslContainer = Some ref,
                          yuvContainer = None, alpha = a\<rparr> \<sigma>1))
          | None \<Rightarrow>
             (case yuv of
                Some v \<Rightarrow>
                  Inr (alloc_color
                         \<lparr>hexContainer = None, rgbContainer = None, hslContainer = None,
                          yuvContainer = Some \<lparr>yuv_y = yuv_y v, yuv_u = yuv_u v, yuv_v = yuv_v v\<rparr>,
                          alpha = a\<rparr> \<sigma>)
              | None \<Rightarrow> Inl OneComponentMustBeSet)))"

definition fromHex :: "string \<Rightarrow> store \<Rightarrow> error + nat \<times> store" where
  "fromHex hex \<sigma> =
     (if \<not> truthy (normalizeHex hex) then Inl InvalidHexValue
      else new_Color (normalizeHex hex) None None None 1 \<sigma>)"

definition fromRGB :: "RGB \<Rightarrow> real \<Rightarrow> store \<Rightarrow> error + nat \<times> store" where
  "fromRGB rgb a \<sigma> = new_Color None (Some rgb) None None a \<sigma>"

definition fromHSL :: "HSL \<Rightarrow> real \<Rightarrow> store \<Rightarrow> error + nat \<times> store" where
  "fromHSL hsl a \<sigma> = new_Color None None (Some hsl) None a \<sigma>"

definition fromYUV :: "YUV \<Rightarrow> real \<Rightarrow> store \<Rightarrow> error + nat \<times> store" where
  "fromYUV yuv a \<sigma> = new_Color None None None (Some yuv) a \<sigma>"

subsection \<open>Calculators and getters\<close>

definition calculateHex :: "nat \<Rightarrow> store \<Rightarrow> error + store" where
  \<comment> \<open>from an HSL container the source stores the RGB triple and calls itself again, which
      then takes the RGB branch\<close>
  "calculateHex c \<sigma> =
     (let obj = colors \<sigma> ! c
      in if truthy (hexContainer obj) then Inr \<sigma>
         else case rgbContainer obj of
           Some rgb \<Rightarrow> Inr (set_color c (\<lambda>x. x\<lparr>hexContainer := Some (rgbToHex rgb)\<rparr>) \<sigma>)
         | None \<Rightarrow>
            (case hslContainer obj of
               Some ref \<Rightarrow>
                 (let rgb = hslToRgb (hsls \<sigma> ! ref)
                  in Inr (set_color c
                            (\<lambda>x. x\<lparr>rgbContainer := Some rgb, hexContainer := Some (rgbToHex rgb)\<rparr>)
                            \<sigma>))
             | None \<Rightarrow> Inl CouldNotCalculateHex))"

definition calculateRGB :: "nat \<Rightarrow> store \<Rightarrow> error + store" where
  "calculateRGB c \<sigma> =
     (let obj = colors \<sigma> ! c
      in if rgbContainer obj \<noteq> None then Inr \<sigma>
         else if truthy (hexContainer obj) then
           (case hexToRgb (the (hexContainer obj)) of
              Some rgb \<Rightarrow> Inr (set_color c (\<lambda>x. x\<lparr>rgbContainer := Some rgb\<rparr>) \<sigma>)
            | None \<Rightarrow> Inl NotNumeric)
         else case hslContainer obj of
           Some ref \<Rightarrow>
             Inr (set_color c (\<lambda>x. x\<lparr>rgbContainer := Some (hslToRgb (hsls \<sigma> ! ref))\<rparr>) \<sigma>)
         | None \<Rightarrow> Inl CouldNotCalculateRGB)"

definition calculateHSL :: "nat \<Rightarrow> store \<Rightarrow> error + store" where
  "calculateHSL c \<sigma> =
     (let obj = colors \<sigma> ! c
      in if hslContainer obj \<noteq> None then Inr \<sigma>
         else if truthy (hexContainer obj) then
           (case hexToHsl (the (hexContainer obj)) of
              Some v \<Rightarrow>
                (let (ref, \<sigma>1) = alloc_hsl v \<sigma>
                 in Inr (set_color c (\<lambda>x. x\<lparr>hslContainer := Some ref\<rparr>) \<sigma>1))
            | None \<Rightarrow> Inl NotNumeric)
         else case rgbContainer obj of
           Some rgb \<Rightarrow>
             (let (ref, \<sigma>1) = alloc_hsl (rgbToHsl rgb) \<sigma>
              in Inr (set_color c (\<lambda>x. x\<lparr>hslContainer := Some ref\<rparr>) \<sigma>1))
         | None \<Rightarrow> Inl CouldNotCalculateHSL)"

definition calculateYUV :: "nat \<Rightarrow> store \<Rightarrow> error + store" where
  "calculateYUV c \<sigma> =
     (if yuvContainer (colors \<sigma> ! c) \<noteq> None then Inr \<sigma>
      else bindE (if rgbContainer (colors \<sigma> ! c) = None then calculateRGB c \<sigma> else Inr \<sigma>)
        (\<lambda>\<sigma>1. case rgbContainer (colors \<sigma>1 ! c) of
                 Some rgb \<Rightarrow> Inr (set_color c (\<lambda>x. x\<lparr>yuvContainer := Some (rgbToYuv rgb)\<rparr>) \<sigma>1)
               | None \<Rightarrow> Inl CouldNotCalculateRGB))"

text \<open>
  The getters \<^verbatim>\<open>hex\<close>, \<^verbatim>\<open>rgb\<close>, \<^verbatim>\<open>hsl\<close> and \<^verbatim>\<open>yuv\<close>: calculate when the container is
  empty, then return the container (for \<^verbatim>\<open>hsl\<close>: the address of the object). Each returns
  the store too, since it may have filled a container. The last branch of each cannot be
  reached: a calculator that returns has filled its container.
\<close>

definition get_hex :: "nat \<Rightarrow> store \<Rightarrow> error + string \<times> store" where
  "get_hex c \<sigma> =
     bindE (if \<not> truthy (hexContainer (colors \<sigma> ! c)) then calculateHex c \<sigma> else Inr \<sigma>)
       (\<lambda>\<sigma>1. case hexContainer (colors \<sigma>1 ! c) of
                Some h \<Rightarrow> Inr (h, \<sigma>1) | None \<Rightarrow> Inl CouldNotCalculateHex)"

definition get_rgb :: "nat \<Rightarrow> store \<Rightarrow> error + RGB \<times> store" where
  "get_rgb c \<sigma> =
     bindE (if rgbContainer (colors \<sigma> ! c) = None then calculateRGB c \<sigma> else Inr \<sigma>)
       (\<lambda>\<sigma>1. case rgbContainer (colors \<sigma>1 ! c) of
                Some v \<Rightarrow> Inr (v, \<sigma>1) | None \<Rightarrow> Inl CouldNotCalculateRGB)"

definition get_hsl :: "nat \<Rightarrow> store \<Rightarrow> error + nat \<times> store" where
  "get_hsl c \<sigma> =
     bindE (if hslContainer (colors \<sigma> ! c) = None then calculateHSL c \<sigma> else Inr \<sigma>)
       (\<lambda>\<sigma>1. case hslContainer (colors \<sigma>1 ! c) of
                Some ref \<Rightarrow> Inr (ref, \<sigma>1) | None \<Rightarrow> Inl CouldNotCalculateHSL)"

definition get_yuv :: "nat \<Rightarrow> store \<Rightarrow> error + YUV \<times> store" where
  "get_yuv c \<sigma> =
     bindE (if yuvContainer (colors \<sigma> ! c) = None then calculateYUV c \<sigma> else Inr \<sigma>)
       (\<lambda>\<sigma>1. case yuvContainer (colors \<sigma>1 ! c) of
                Some v \<Rightarrow> Inr (v, \<sigma>1) | None \<Rightarrow> Inl CouldNotCalculateRGB)"

definition get_alpha :: "nat \<Rightarrow> store \<Rightarrow> real" where
  "get_alpha c \<sigma> = alpha (colors \<sigma> ! c)"

subsection \<open>Operations\<close>

text \<open>
  An operation that reads \<^verbatim>\<open>this.hsl\<close> several times calls the getter once here: the
  later calls of the source find the container filled and return the same object.
\<close>

definition darken :: "nat \<Rightarrow> real \<Rightarrow> store \<Rightarrow> error + nat \<times> store" where
  "darken c percentage \<sigma> =
     bindE (get_hsl c \<sigma>)
       (\<lambda>(ref, \<sigma>1).
          fromHSL \<lparr>hsl_h = hsl_h (hsls \<sigma>1 ! ref), hsl_s = hsl_s (hsls \<sigma>1 ! ref),
                   hsl_l = max (min (hsl_l (hsls \<sigma>1 ! ref) - percentage / 100) 1) 0\<rparr>
            (get_alpha c \<sigma>1) \<sigma>1)"

definition lighten :: "nat \<Rightarrow> real \<Rightarrow> store \<Rightarrow> error + nat \<times> store" where
  "lighten c percentage \<sigma> = darken c (- percentage) \<sigma>"

definition saturate :: "nat \<Rightarrow> real \<Rightarrow> store \<Rightarrow> error + nat \<times> store" where
  "saturate c percentage \<sigma> =
     bindE (get_hsl c \<sigma>)
       (\<lambda>(ref, \<sigma>1).
          fromHSL \<lparr>hsl_h = hsl_h (hsls \<sigma>1 ! ref),
                   hsl_s = max (min (hsl_s (hsls \<sigma>1 ! ref) + percentage / 100) 1) 0,
                   hsl_l = hsl_l (hsls \<sigma>1 ! ref)\<rparr>
            (get_alpha c \<sigma>1) \<sigma>1)"

definition desaturate :: "nat \<Rightarrow> real \<Rightarrow> store \<Rightarrow> error + nat \<times> store" where
  "desaturate c percentage \<sigma> = saturate c (- percentage) \<sigma>"

definition shiftHue :: "nat \<Rightarrow> real \<Rightarrow> store \<Rightarrow> error + nat \<times> store" where
  "shiftHue c amount \<sigma> =
     bindE (get_hsl c \<sigma>)
       (\<lambda>(ref, \<sigma>1).
          fromHSL \<lparr>hsl_h = modulo (hsl_h (hsls \<sigma>1 ! ref) + amount) 1,
                   hsl_s = hsl_s (hsls \<sigma>1 ! ref), hsl_l = hsl_l (hsls \<sigma>1 ! ref)\<rparr>
            (get_alpha c \<sigma>1) \<sigma>1)"

definition clone :: "nat \<Rightarrow> store \<Rightarrow> error + nat \<times> store" where
  "clone c \<sigma> = bindE (get_hsl c \<sigma>) (\<lambda>(ref, \<sigma>1). fromHSL (hsls \<sigma>1 ! ref) (get_alpha c \<sigma>1) \<sigma>1)"

definition withAlpha :: "nat \<Rightarrow> real \<Rightarrow> store \<Rightarrow> error + nat \<times> store" where
  "withAlpha c a \<sigma> =
     bindE (clone c \<sigma>) (\<lambda>(k, \<sigma>1). Inr (k, set_color k (\<lambda>x. x\<lparr>alpha := a\<rparr>) \<sigma>1))"

definition withHue :: "nat \<Rightarrow> real \<Rightarrow> store \<Rightarrow> error + nat \<times> store" where
  "withHue c hue \<sigma> =
     bindE (clone c \<sigma>)
       (\<lambda>(k, \<sigma>1). bindE (get_hsl k \<sigma>1)
          (\<lambda>(ref, \<sigma>2).
             Inr (k, set_color k (\<lambda>x. x\<lparr>rgbContainer := None, hexContainer := None\<rparr>)
                       (set_hsl ref (\<lambda>v. v\<lparr>hsl_h := hue\<rparr>) \<sigma>2))))"

definition withSaturation :: "nat \<Rightarrow> real \<Rightarrow> store \<Rightarrow> error + nat \<times> store" where
  "withSaturation c saturation \<sigma> =
     bindE (clone c \<sigma>)
       (\<lambda>(k, \<sigma>1). bindE (get_hsl k \<sigma>1)
          (\<lambda>(ref, \<sigma>2).
             Inr (k, set_color k (\<lambda>x. x\<lparr>rgbContainer := None, hexContainer := None\<rparr>)
                       (set_hsl ref (\<lambda>v. v\<lparr>hsl_s := saturation\<rparr>) \<sigma>2))))"

definition withLightness :: "nat \<Rightarrow> real \<Rightarrow> store \<Rightarrow> error + nat \<times> store" where
  "withLightness c lightness \<sigma> =
     bindE (clone c \<sigma>)
       (\<lambda>(k, \<sigma>1). bindE (get_hsl k \<sigma>1)
          (\<lambda>(ref, \<sigma>2). Inr (k, set_hsl ref (\<lambda>v. v\<lparr>hsl_l := lightness\<rparr>) \<sigma>2)))"

definition perceivedBrightness :: "nat \<Rightarrow> store \<Rightarrow> error + real \<times> store" where
  \<comment> \<open>the literals are the doubles nearest to the decimals\<close>
  "perceivedBrightness c \<sigma> =
     bindE (get_rgb c \<sigma>)
       (\<lambda>(v, \<sigma>1). Inr (dadd (dadd (dmul (fl 0.2126) (real_of_int (rgb_r v)))
                                 (dmul (fl 0.7152) (real_of_int (rgb_g v))))
                           (dmul (fl 0.0722) (real_of_int (rgb_b v))), \<sigma>1))"

definition contrast :: "nat \<Rightarrow> nat \<Rightarrow> store \<Rightarrow> error + real \<times> store" where
  \<comment> \<open>with a denominator 0 the quotient of the source is \<^verbatim>\<open>NaN\<close> or infinite\<close>
  "contrast c0 c1 \<sigma> =
     bindE (perceivedBrightness c0 \<sigma>)
       (\<lambda>(lum1, \<sigma>1). bindE (perceivedBrightness c1 \<sigma>1)
          (\<lambda>(lum2, \<sigma>2).
             if dadd (min lum1 lum2) (fl 0.05) = 0 then Inl NotNumeric
             else Inr (ddiv (dadd (max lum1 lum2) (fl 0.05)) (dadd (min lum1 lum2) (fl 0.05)),
                       \<sigma>2)))"

definition contrastTo :: "nat \<Rightarrow> nat \<Rightarrow> store \<Rightarrow> error + real \<times> store" where
  "contrastTo c color \<sigma> = contrast c color \<sigma>"

definition mixPair :: "string \<Rightarrow> string \<Rightarrow> real \<Rightarrow> nat \<Rightarrow> string option" where
  \<comment> \<open>one round of the loop of \<^verbatim>\<open>Color.mix\<close>, for the digit pair at \<open>i\<close>; the \<^verbatim>\<open>while\<close> that
      prepends zeros is \<open>padStart\<close>. \<open>None\<close> when \<^verbatim>\<open>parseInt\<close> gives \<^verbatim>\<open>NaN\<close>: the pair is then
      the text \<^verbatim>\<open>NaN\<close>, whose \<^verbatim>\<open>N\<close> makes \<^verbatim>\<open>fromHex\<close> throw.\<close>
  "mixPair hex1 hex2 weight i =
     (case (parseInt16 (substring hex1 i (i + 2)), parseInt16 (substring hex2 i (i + 2))) of
        (Some value1, Some value2) \<Rightarrow>
          Some (padStart
                  (toString16 \<lfloor>dadd (real_of_int value2)
                                 (dmul (dsub (real_of_int value1) (real_of_int value2))
                                    (ddiv weight 100))\<rfloor>)
                  2 CHR ''0'')
      | _ \<Rightarrow> None)"

definition mix :: "nat \<Rightarrow> nat \<Rightarrow> real \<Rightarrow> store \<Rightarrow> error + nat \<times> store" where
  "mix color1 color2 weight \<sigma> =
     bindE (get_hex color1 \<sigma>)
       (\<lambda>(hex1, \<sigma>1). bindE (get_hex color2 \<sigma>1)
          (\<lambda>(hex2, \<sigma>2).
             case (mixPair hex1 hex2 weight 0, mixPair hex1 hex2 weight 2,
                   mixPair hex1 hex2 weight 4) of
               (Some p0, Some p2, Some p4) \<Rightarrow>
                 (let a = dadd (get_alpha color2 \<sigma>2)
                            (dmul (dsub (get_alpha color1 \<sigma>2) (get_alpha color2 \<sigma>2))
                               (ddiv weight 100))
                  in bindE (fromHex (p0 @ p2 @ p4) \<sigma>2) (\<lambda>(m, \<sigma>3). withAlpha m a \<sigma>3))
             | _ \<Rightarrow> Inl InvalidHexValue))"

definition mixWith :: "nat \<Rightarrow> nat \<Rightarrow> real \<Rightarrow> store \<Rightarrow> error + nat \<times> store" where
  "mixWith c color weight \<sigma> = mix c color weight \<sigma>"

subsection \<open>The static colours\<close>

definition static_init :: "error + (nat \<times> nat \<times> nat) \<times> store" where
  \<comment> \<open>the initialisers of \<^verbatim>\<open>WHITE\<close>, \<^verbatim>\<open>BLACK\<close> and \<^verbatim>\<open>TRANSPARENT\<close>, run in this order
      on the empty store\<close>
  "static_init =
     bindE (fromHex ''#ffffff'' \<lparr>colors = [], hsls = []\<rparr>)
       (\<lambda>(w, \<sigma>1). bindE (fromHex ''#000000'' \<sigma>1)
          (\<lambda>(b, \<sigma>2). bindE (fromHSL \<lparr>hsl_h = 0, hsl_s = 0, hsl_l = 0\<rparr> 0 \<sigma>2)
             (\<lambda>(t, \<sigma>3). Inr ((w, b, t), \<sigma>3))))"

definition WHITE :: nat where
  "WHITE = (case static_init of Inr ((w, b, t), \<sigma>) \<Rightarrow> w | Inl e \<Rightarrow> 0)"

definition BLACK :: nat where
  "BLACK = (case static_init of Inr ((w, b, t), \<sigma>) \<Rightarrow> b | Inl e \<Rightarrow> 0)"

definition TRANSPARENT :: nat where
  "TRANSPARENT = (case static_init of Inr ((w, b, t), \<sigma>) \<Rightarrow> t | Inl e \<Rightarrow> 0)"

definition initial :: store where
  \<comment> \<open>the store once the class is loaded\<close>
  "initial = (case static_init of Inr ((w, b, t), \<sigma>) \<Rightarrow> \<sigma> | Inl e \<Rightarrow> \<lparr>colors = [], hsls = []\<rparr>)"

subsection \<open>Strings and JSON\<close>

text \<open>
  The CSS strings are kept as their form and their numbers: how JavaScript prints a
  number is not modelled. \<open>CssHSLA\<close> is \<^verbatim>\<open>hsla(H, S%, L%, A)\<close>, \<open>CssRGBA\<close> is
  \<^verbatim>\<open>rgba(R, G, B, A)\<close>, \<open>CssHex\<close> is the hex string with its \<^verbatim>\<open>#\<close>.
\<close>

datatype css = CssHSLA real real real real | CssRGBA int int int real | CssHex string

definition cssHSLA :: "nat \<Rightarrow> store \<Rightarrow> error + css \<times> store" where
  "cssHSLA c \<sigma> =
     bindE (get_hsl c \<sigma>)
       (\<lambda>(ref, \<sigma>1).
          Inr (CssHSLA (real_of_int (js_round (hsl_h (hsls \<sigma>1 ! ref) * 360 * 10000)) / 10000)
                 (real_of_int (js_round (hsl_s (hsls \<sigma>1 ! ref) * 100 * 10000)) / 10000)
                 (real_of_int (js_round (hsl_l (hsls \<sigma>1 ! ref) * 100 * 10000)) / 10000)
                 (get_alpha c \<sigma>1), \<sigma>1))"

definition cssRGBA :: "nat \<Rightarrow> store \<Rightarrow> error + css \<times> store" where
  "cssRGBA c \<sigma> =
     bindE (get_rgb c \<sigma>)
       (\<lambda>(v, \<sigma>1). Inr (CssRGBA (rgb_r v) (rgb_g v) (rgb_b v) (get_alpha c \<sigma>1), \<sigma>1))"

definition cssHex :: "nat \<Rightarrow> store \<Rightarrow> error + css \<times> store" where
  "cssHex c \<sigma> = bindE (get_hex c \<sigma>) (\<lambda>(h, \<sigma>1). Inr (CssHex (''#'' @ h), \<sigma>1))"

definition toString :: "nat \<Rightarrow> store \<Rightarrow> error + css \<times> store" where
  "toString c \<sigma> =
     (if hslContainer (colors \<sigma> ! c) \<noteq> None then cssHSLA c \<sigma>
      else if rgbContainer (colors \<sigma> ! c) \<noteq> None then cssRGBA c \<sigma>
      else if truthy (hexContainer (colors \<sigma> ! c)) then cssHex c \<sigma>
      else cssHSLA c \<sigma>)"

datatype jv = JNum real | JStr string

definition toJSON :: "nat \<Rightarrow> store \<Rightarrow> error + (string \<rightharpoonup> jv) \<times> store" where
  \<comment> \<open>the object literal with the spread container and \<^verbatim>\<open>alpha\<close>, as a map from keys\<close>
  "toJSON c \<sigma> =
     (case rgbContainer (colors \<sigma> ! c) of
        Some v \<Rightarrow>
          Inr ([''r'' \<mapsto> JNum (real_of_int (rgb_r v)), ''g'' \<mapsto> JNum (real_of_int (rgb_g v)),
                ''b'' \<mapsto> JNum (real_of_int (rgb_b v)), ''alpha'' \<mapsto> JNum (get_alpha c \<sigma>)], \<sigma>)
      | None \<Rightarrow>
         (case hslContainer (colors \<sigma> ! c) of
            Some ref \<Rightarrow>
              Inr ([''h'' \<mapsto> JNum (hsl_h (hsls \<sigma> ! ref)), ''s'' \<mapsto> JNum (hsl_s (hsls \<sigma> ! ref)),
                    ''l'' \<mapsto> JNum (hsl_l (hsls \<sigma> ! ref)), ''alpha'' \<mapsto> JNum (get_alpha c \<sigma>)], \<sigma>)
          | None \<Rightarrow> bindE (get_hex c \<sigma>) (\<lambda>(h, \<sigma>1). Inr ([''hex'' \<mapsto> JStr h], \<sigma>1))))"

definition jv_truthy :: "jv option \<Rightarrow> bool" where
  \<comment> \<open>the truth value of a property read: a missing key (\<^verbatim>\<open>undefined\<close>), the number 0 and
      the empty string are falsy\<close>
  "jv_truthy v = (case v of None \<Rightarrow> False | Some (JNum x) \<Rightarrow> x \<noteq> 0 | Some (JStr s) \<Rightarrow> s \<noteq> [])"

definition alphaArg :: "jv option \<Rightarrow> real option" where
  \<comment> \<open>\<^verbatim>\<open>parsed.alpha\<close> as the second argument: the default 1 replaces \<^verbatim>\<open>undefined\<close>\<close>
  "alphaArg v = (case v of None \<Rightarrow> Some 1 | Some (JNum a) \<Rightarrow> Some a | Some (JStr s) \<Rightarrow> None)"

definition asInt :: "jv option \<Rightarrow> int option" where
  "asInt v = (case v of Some (JNum x) \<Rightarrow> (if x = real_of_int \<lfloor>x\<rfloor> then Some \<lfloor>x\<rfloor> else None) | _ \<Rightarrow> None)"

definition asReal :: "jv option \<Rightarrow> real option" where
  "asReal v = (case v of Some (JNum x) \<Rightarrow> Some x | _ \<Rightarrow> None)"

definition fromParsed :: "(string \<rightharpoonup> jv) \<Rightarrow> store \<Rightarrow> error + nat option \<times> store" where
  \<comment> \<open>the \<^verbatim>\<open>if (parsed.hex) ... else if (parsed.h) ... else if (parsed.r)\<close> chain of
      \<^verbatim>\<open>Color.fromJSON\<close>. A number under \<^verbatim>\<open>hex\<close> has no \<^verbatim>\<open>length\<close>, so \<^verbatim>\<open>normalizeHex\<close>
      gives \<^verbatim>\<open>null\<close> and \<^verbatim>\<open>fromHex\<close> throws.\<close>
  "fromParsed parsed \<sigma> =
     (if jv_truthy (parsed ''hex'') then
        (case parsed ''hex'' of
           Some (JStr s) \<Rightarrow> bindE (fromHex s \<sigma>) (\<lambda>(k, \<sigma>1). Inr (Some k, \<sigma>1))
         | _ \<Rightarrow> Inl InvalidHexValue)
      else if jv_truthy (parsed ''h'') then
        (case (asReal (parsed ''h''), asReal (parsed ''s''), asReal (parsed ''l''),
               alphaArg (parsed ''alpha'')) of
           (Some h, Some s, Some l, Some a) \<Rightarrow>
             bindE (fromHSL \<lparr>hsl_h = h, hsl_s = s, hsl_l = l\<rparr> a \<sigma>) (\<lambda>(k, \<sigma>1). Inr (Some k, \<sigma>1))
         | _ \<Rightarrow> Inl NotNumeric)
      else if jv_truthy (parsed ''r'') then
        (case (asInt (parsed ''r''), asInt (parsed ''g''), asInt (parsed ''b''),
               alphaArg (parsed ''alpha'')) of
           (Some r, Some g, Some b, Some a) \<Rightarrow>
             bindE (fromRGB \<lparr>rgb_r = r, rgb_g = g, rgb_b = b\<rparr> a \<sigma>) (\<lambda>(k, \<sigma>1). Inr (Some k, \<sigma>1))
         | _ \<Rightarrow> Inl NotNumeric)
      else Inr (None, \<sigma>))"

datatype json_arg = JsonNull | JsonText string | JsonObject "string \<rightharpoonup> jv"

definition fromJSON ::
  "(string \<Rightarrow> error + (string \<rightharpoonup> jv)) \<Rightarrow> json_arg \<Rightarrow> store \<Rightarrow> error + nat option \<times> store"
where
  \<comment> \<open>\<^verbatim>\<open>Color.fromJSON\<close>; \<open>None\<close> is \<^verbatim>\<open>null\<close>. \<^verbatim>\<open>JSON.parse\<close> is the parameter \<open>parse\<close>, for
      a text that holds an object.\<close>
  "fromJSON parse json \<sigma> =
     (case json of
        JsonNull \<Rightarrow> Inr (None, \<sigma>)
      | JsonText s \<Rightarrow>
          (if s = [] then Inr (None, \<sigma>) else bindE (parse s) (\<lambda>parsed. fromParsed parsed \<sigma>))
      | JsonObject parsed \<Rightarrow> fromParsed parsed \<sigma>)"

subsection \<open>What a call returns\<close>

definition result :: "error + 'a \<times> store \<Rightarrow> error + 'a" where
  \<comment> \<open>the value a call returns, or the exception it throws\<close>
  "result m = (case m of Inl e \<Rightarrow> Inl e | Inr (x, \<sigma>) \<Rightarrow> Inr x)"

definition hsl_of :: "nat \<Rightarrow> store \<Rightarrow> error + HSL" where
  \<comment> \<open>the fields of the object that the getter \<^verbatim>\<open>hsl\<close> returns\<close>
  "hsl_of c \<sigma> = (case get_hsl c \<sigma> of Inl e \<Rightarrow> Inl e | Inr (ref, \<sigma>1) \<Rightarrow> Inr (hsls \<sigma>1 ! ref))"

section \<open>Definitions that follow the words of the specification\<close>

text \<open>
  The vocabulary of the properties below: what the specification calls a byte pair of a
  hex string, the blended value of \<^verbatim>\<open>mix\<close>, the observable state of a colour, a colour
  that is backed by HSL alone. None of them is used by the model of the code above.
\<close>

definition stripHash :: "string \<Rightarrow> string" where
  \<comment> \<open>the specification's ``strips one optional leading \<^verbatim>\<open>#\<close>''\<close>
  "stripHash s = (if take 1 s = ''#'' then drop 1 s else s)"

text \<open>A normalized hex string: six hex digits.\<close>

definition hex6 :: "string \<Rightarrow> bool" where
  "hex6 h = (length h = 6 \<and> list_all isHexDigit h)"

text \<open>The value of the byte pair of a hex string at offset \<open>i\<close> (0, 2 or 4).\<close>

definition bytePair :: "string \<Rightarrow> nat \<Rightarrow> int" where
  "bytePair hex i = (case parseInt16 (substring hex i (i + 2)) of Some n \<Rightarrow> n | None \<Rightarrow> 0)"

text \<open>
  \<^verbatim>\<open>floor(valueB + (valueA - valueB) * weight / 100)\<close> for the pair at \<open>i\<close>, in the arithmetic
  of the program: the division, the difference, the product and the sum are operations on
  doubles.
\<close>

definition blend :: "string \<Rightarrow> string \<Rightarrow> real \<Rightarrow> nat \<Rightarrow> int" where
  "blend hexA hexB weight i =
     \<lfloor>dadd (real_of_int (bytePair hexB i))
        (dmul (dsub (real_of_int (bytePair hexA i)) (real_of_int (bytePair hexB i)))
           (ddiv weight 100))\<rfloor>"

text \<open>
  The perceived brightness of an RGB triple, \<^verbatim>\<open>0.2126 r + 0.7152 g + 0.0722 b\<close>, in the
  arithmetic of the program.
\<close>

definition brightness :: "RGB \<Rightarrow> real" where
  "brightness v =
     dadd (dadd (dmul (fl 0.2126) (real_of_int (rgb_r v))) (dmul (fl 0.7152) (real_of_int (rgb_g v))))
       (dmul (fl 0.0722) (real_of_int (rgb_b v)))"

text \<open>
  A colour that has a hex, RGB or HSL container to compute from: the hex string, when it
  is there, is the one the calculators read first, and its digit pairs must parse.
  A colour made by \<^verbatim>\<open>fromYUV\<close> has none of the three.
\<close>

definition backed :: "Color \<Rightarrow> bool" where
  "backed obj =
     (if truthy (hexContainer obj) then hexToRgb (the (hexContainer obj)) \<noteq> None
      else rgbContainer obj \<noteq> None \<or> hslContainer obj \<noteq> None)"

text \<open>The RGB container, when it is there, holds channels from 0 to 255.\<close>

definition rgb_ok :: "Color \<Rightarrow> bool" where
  "rgb_ok obj =
     (case rgbContainer obj of
        Some v \<Rightarrow> 0 \<le> rgb_r v \<and> rgb_r v \<le> 255 \<and> 0 \<le> rgb_g v \<and> rgb_g v \<le> 255 \<and>
                  0 \<le> rgb_b v \<and> rgb_b v \<le> 255
      | None \<Rightarrow> True)"

text \<open>The colour is allocated, and so is the \<^verbatim>\<open>HSL\<close> object of its container.\<close>

definition ref_ok :: "nat \<Rightarrow> store \<Rightarrow> bool" where
  "ref_ok c \<sigma> =
     (c < length (colors \<sigma>) \<and>
      (case hslContainer (colors \<sigma> ! c) of Some ref \<Rightarrow> ref < length (hsls \<sigma>) | None \<Rightarrow> True))"

text \<open>
  The observable state of a colour: what its getters \<^verbatim>\<open>hex\<close>, \<^verbatim>\<open>rgb\<close>, \<^verbatim>\<open>hsl\<close> and
  \<^verbatim>\<open>yuv\<close> return (or throw) in a store, and its \<^verbatim>\<open>alpha\<close>.
\<close>

definition observe ::
  "nat \<Rightarrow> store \<Rightarrow> (error + string) \<times> (error + RGB) \<times> (error + HSL) \<times> (error + YUV) \<times> real"
where
  "observe c \<sigma> =
     (result (get_hex c \<sigma>), result (get_rgb c \<sigma>), hsl_of c \<sigma>, result (get_yuv c \<sigma>),
      get_alpha c \<sigma>)"

text \<open>
  A call returns a new instance and leaves the receiver as it was: the result is an
  address that is not the receiver and was not allocated before the call, and every
  observable of the receiver is the same after the call as before.
\<close>

definition new_keeping :: "nat \<Rightarrow> store \<Rightarrow> error + nat \<times> store \<Rightarrow> bool" where
  "new_keeping c \<sigma> m =
     (\<exists>k \<sigma>'. m = Inr (k, \<sigma>') \<and> k \<noteq> c \<and> length (colors \<sigma>) \<le> k \<and> observe c \<sigma>' = observe c \<sigma>)"

text \<open>
  A colour backed by HSL alone: only the HSL container is set, so \<^verbatim>\<open>toJSON\<close> gives the
  keys \<^verbatim>\<open>h\<close>, \<^verbatim>\<open>s\<close>, \<^verbatim>\<open>l\<close>, \<^verbatim>\<open>alpha\<close> and \<^verbatim>\<open>toString\<close> the \<^verbatim>\<open>hsla(...)\<close> form.
\<close>

definition hsl_only :: "nat \<Rightarrow> store \<Rightarrow> bool" where
  "hsl_only k \<sigma> =
     (hexContainer (colors \<sigma> ! k) = None \<and> rgbContainer (colors \<sigma> ! k) = None \<and>
      yuvContainer (colors \<sigma> ! k) = None \<and> hslContainer (colors \<sigma> ! k) \<noteq> None \<and>
      (\<exists>h s l a. result (toJSON k \<sigma>) =
          Inr [''h'' \<mapsto> JNum h, ''s'' \<mapsto> JNum s, ''l'' \<mapsto> JNum l, ''alpha'' \<mapsto> JNum a]) \<and>
      (\<exists>h s l a. result (toString k \<sigma>) = Inr (CssHSLA h s l a)))"

section \<open>Views and stores, for the proofs\<close>

text \<open>
  What a getter returns depends on the object and on the \<^verbatim>\<open>HSL\<close> objects only: the views
  below say so as functions, and the lemmas show that the getters compute them. The stores
  \<open>fill_hsl\<close>, \<open>fill_hex\<close>, \<open>fill_rgb\<close>, \<open>produced\<close> and \<open>mixed\<close> are the stores that the
  getters and the operations leave behind, in closed form.
\<close>

text \<open>
  For the doubles: the multiples of a power of two, and the doubles nearest to the four
  decimals of \<^verbatim>\<open>perceivedBrightness\<close> and \<^verbatim>\<open>contrast\<close>.
\<close>

definition grid :: "int \<Rightarrow> real \<Rightarrow> bool" where
  "grid j x = (x / 2 powi j \<in> \<int>)"

definition c_r :: real where
  "c_r = 1914930561557935 / 2 ^ 53"

definition c_g :: real where
  "c_g = 6441948906990757 / 2 ^ 53"

definition c_b :: real where
  "c_b = 5202558289538397 / 2 ^ 56"

definition c_k :: real where
  "c_k = 3602879701896397 / 2 ^ 56"

definition hexView :: "Color \<Rightarrow> HSL list \<Rightarrow> error + string" where
  "hexView obj hs =
     (if truthy (hexContainer obj) then Inr (the (hexContainer obj))
      else case rgbContainer obj of
        Some v \<Rightarrow> Inr (rgbToHex v)
      | None \<Rightarrow>
         (case hslContainer obj of
            Some ref \<Rightarrow> Inr (rgbToHex (hslToRgb (hs ! ref)))
          | None \<Rightarrow> Inl CouldNotCalculateHex))"

definition rgbView :: "Color \<Rightarrow> HSL list \<Rightarrow> error + RGB" where
  "rgbView obj hs =
     (case rgbContainer obj of
        Some v \<Rightarrow> Inr v
      | None \<Rightarrow>
         (if truthy (hexContainer obj) then
            (case hexToRgb (the (hexContainer obj)) of Some v \<Rightarrow> Inr v | None \<Rightarrow> Inl NotNumeric)
          else case hslContainer obj of
            Some ref \<Rightarrow> Inr (hslToRgb (hs ! ref))
          | None \<Rightarrow> Inl CouldNotCalculateRGB))"

definition hslView :: "Color \<Rightarrow> HSL list \<Rightarrow> error + HSL" where
  "hslView obj hs =
     (case hslContainer obj of
        Some ref \<Rightarrow> Inr (hs ! ref)
      | None \<Rightarrow>
         (if truthy (hexContainer obj) then
            (case hexToHsl (the (hexContainer obj)) of Some v \<Rightarrow> Inr v | None \<Rightarrow> Inl NotNumeric)
          else case rgbContainer obj of
            Some v \<Rightarrow> Inr (rgbToHsl v)
          | None \<Rightarrow> Inl CouldNotCalculateHSL))"

definition yuvView :: "Color \<Rightarrow> HSL list \<Rightarrow> error + YUV" where
  "yuvView obj hs =
     (case yuvContainer obj of
        Some v \<Rightarrow> Inr v
      | None \<Rightarrow> (case rgbView obj hs of Inl e \<Rightarrow> Inl e | Inr v \<Rightarrow> Inr (rgbToYuv v)))"

definition views ::
  "Color \<Rightarrow> HSL list \<Rightarrow> (error + string) \<times> (error + RGB) \<times> (error + HSL) \<times> (error + YUV) \<times> real"
where
  "views obj hs = (hexView obj hs, rgbView obj hs, hslView obj hs, yuvView obj hs, alpha obj)"

definition fill_hsl :: "HSL \<Rightarrow> nat \<Rightarrow> store \<Rightarrow> store" where
  "fill_hsl v c \<sigma> =
     (if hslContainer (colors \<sigma> ! c) = None then
        \<lparr>colors = (colors \<sigma>)[c := (colors \<sigma> ! c)\<lparr>hslContainer := Some (length (hsls \<sigma>))\<rparr>],
         hsls = hsls \<sigma> @ [v]\<rparr>
      else \<sigma>)"

definition fill_hex :: "nat \<Rightarrow> store \<Rightarrow> store" where
  "fill_hex c \<sigma> =
     (if truthy (hexContainer (colors \<sigma> ! c)) then \<sigma>
      else case rgbView (colors \<sigma> ! c) (hsls \<sigma>) of
        Inl e \<Rightarrow> \<sigma>
      | Inr v \<Rightarrow>
          \<sigma>\<lparr>colors := (colors \<sigma>)[c := (colors \<sigma> ! c)\<lparr>rgbContainer := Some v,
                                                        hexContainer := Some (rgbToHex v)\<rparr>]\<rparr>)"

definition fill_rgb :: "RGB \<Rightarrow> nat \<Rightarrow> store \<Rightarrow> store" where
  "fill_rgb v c \<sigma> =
     (if rgbContainer (colors \<sigma> ! c) = None then
        \<sigma>\<lparr>colors := (colors \<sigma>)[c := (colors \<sigma> ! c)\<lparr>rgbContainer := Some v\<rparr>]\<rparr>
      else \<sigma>)"

definition produced :: "HSL \<Rightarrow> real \<Rightarrow> HSL \<Rightarrow> nat \<Rightarrow> store \<Rightarrow> store" where
  "produced w a v c \<sigma> =
     \<lparr>colors = colors (fill_hsl v c \<sigma>) @
               [\<lparr>hexContainer = None, rgbContainer = None,
                 hslContainer = Some (length (hsls (fill_hsl v c \<sigma>))), yuvContainer = None,
                 alpha = a\<rparr>],
      hsls = hsls (fill_hsl v c \<sigma>) @ [w]\<rparr>"

definition mixed :: "string \<Rightarrow> nat \<Rightarrow> nat \<Rightarrow> store \<Rightarrow> store" where
  "mixed fin c1 c2 \<sigma> =
     (fill_hex c2 (fill_hex c1 \<sigma>))
       \<lparr>colors := colors (fill_hex c2 (fill_hex c1 \<sigma>)) @
                   [\<lparr>hexContainer = Some fin, rgbContainer = None, hslContainer = None,
                     yuvContainer = None, alpha = 1\<rparr>]\<rparr>"

section \<open>Hex strings\<close>

lemma charAt0: "charAt s 0 = take 1 s"
  by (cases s) (simp_all add: charAt_def)

lemma substring_tail: "substring s 1 (length s) = drop 1 s"
  by (cases s) (simp_all add: substring_def Let_def)

lemma substring_6:
  "substring [a, b, c, d, e, f] 0 2 = [a, b]"
  "substring [a, b, c, d, e, f] 2 4 = [c, d]"
  "substring [a, b, c, d, e, f] 4 6 = [e, f]"
  by (simp_all add: substring_def Let_def)

lemma normalizeHex_alt:
  "normalizeHex s =
     (if s = [] \<or> list_ex nonHexLetter s then None
      else if take 1 s = ''#'' \<and> take 1 (drop 1 s) = ''#'' then None
      else case stripHash s of
             [a, b] \<Rightarrow> Some [a, b, a, b, a, b]
           | [a, b, c] \<Rightarrow> Some [a, a, b, b, c, c]
           | [a, b, c, d, e, f] \<Rightarrow> Some [a, b, c, d, e, f]
           | _ \<Rightarrow> None)"
  unfolding normalizeHex_def charAt0 substring_tail stripHash_def Let_def
  by (auto simp: charAt_def split: list.splits)

lemma hexDigit_not_ws: "isHexDigit c \<Longrightarrow> \<not> isWhiteSpace c"
  by (auto simp: isHexDigit_def isDigit_def isWhiteSpace_def)

lemma code_eq: "code c = code d \<longleftrightarrow> c = d"
  by (simp add: code_def)

lemma hexDigit_not_sign: "isHexDigit c \<Longrightarrow> c \<noteq> CHR ''-'' \<and> c \<noteq> CHR ''+'' \<and> c \<noteq> CHR ''x'' \<and> c \<noteq> CHR ''X'' \<and> c \<noteq> CHR ''#''"
  by (auto simp: isHexDigit_def isDigit_def code_def)

lemma parseInt16_pair:
  assumes "isHexDigit a" "isHexDigit b"
  shows "parseInt16 [a, b] = Some (16 * hexValue a + hexValue b)"
  using assms hexDigit_not_ws[OF assms(1)] hexDigit_not_sign[OF assms(1)] hexDigit_not_sign[OF assms(2)]
  by (simp add: parseInt16_def Let_def)

lemma hexValue_range: "isHexDigit c \<Longrightarrow> 0 \<le> hexValue c \<and> hexValue c < 16"
  by (auto simp: isHexDigit_def isDigit_def hexValue_def)

lemma code_char_of: "code (char_of (n::nat)) = n mod 256"
  by (simp add: code_def)

lemma char_eqI: "code c = code d \<Longrightarrow> c = d"
  by (simp add: code_def)

lemma hexDigitOf_hexValue:
  assumes "isHexDigit c"
  shows "[hexDigitOf (nat (hexValue c))] = toLowerCase [c]"
proof -
  have "code (hexDigitOf (nat (hexValue c))) =
        code (if 65 \<le> code c \<and> code c \<le> 90 then char_of (code c + 32) else c)"
    using assms
    by (auto simp: isHexDigit_def isDigit_def hexValue_def hexDigitOf_def code_char_of nat_diff_distrib)
  then show ?thesis
    by (simp add: toLowerCase_def char_eqI)
qed

lemma hexDigitOf_0: "hexDigitOf 0 = CHR ''0''"
  by (rule char_eqI) (simp add: hexDigitOf_def code_char_of, simp add: code_def)

lemma hexDigits_two:
  assumes "x < 16" "y < 16"
  shows "padStart (hexDigits (16 * x + y)) 2 CHR ''0'' = [hexDigitOf x, hexDigitOf y]"
proof (cases "x = 0")
  case True
  then show ?thesis using assms
    by (simp add: hexDigits.simps [of y] padStart_def hexDigitOf_0)
next
  case False
  then have "hexDigits (16 * x + y) = [hexDigitOf x, hexDigitOf y]"
    using assms by (simp add: hexDigits.simps [of "16 * x + y"] hexDigits.simps [of x])
  then show ?thesis by (simp add: padStart_def)
qed

lemma pair_roundtrip:
  assumes "isHexDigit a" "isHexDigit b"
  shows "\<exists>n. parseInt16 [a, b] = Some n \<and> 0 \<le> n \<and> n \<le> 255 \<and>
             padStart (toString16 n) 2 CHR ''0'' = toLowerCase [a, b]"
proof -
  let ?x = "nat (hexValue a)" and ?y = "nat (hexValue b)"
  have r: "?x < 16" "?y < 16" "0 \<le> hexValue a" "0 \<le> hexValue b"
    using hexValue_range [OF assms(1)] hexValue_range [OF assms(2)] by auto
  have n: "nat (16 * hexValue a + hexValue b) = 16 * ?x + ?y"
    using r by (simp add: nat_add_distrib nat_mult_distrib)
  have "padStart (toString16 (16 * hexValue a + hexValue b)) 2 CHR ''0'' = [hexDigitOf ?x, hexDigitOf ?y]"
    using r hexDigits_two [OF r(1) r(2)] by (simp add: toString16_def n)
  also have "\<dots> = toLowerCase [a, b]"
    using hexDigitOf_hexValue [OF assms(1)] hexDigitOf_hexValue [OF assms(2)]
    by (simp add: toLowerCase_def)
  finally show ?thesis
    using parseInt16_pair [OF assms] hexValue_range [OF assms(1)] hexValue_range [OF assms(2)] by simp
qed

section \<open>Getters\<close>

lemma bindE_Inl [simp]: "bindE (Inl e) f = Inl e"
  by (simp add: bindE_def)

lemma bindE_Inr [simp]: "bindE (Inr x) f = f x"
  by (simp add: bindE_def)

lemma colors_set_color [simp]: "colors (set_color c f \<sigma>) = (colors \<sigma>)[c := f (colors \<sigma> ! c)]"
  by (simp add: set_color_def)

lemma hsls_set_color [simp]: "hsls (set_color c f \<sigma>) = hsls \<sigma>"
  by (simp add: set_color_def)

lemma colors_set_hsl [simp]: "colors (set_hsl a f \<sigma>) = colors \<sigma>"
  by (simp add: set_hsl_def)

lemma hsls_set_hsl [simp]: "hsls (set_hsl a f \<sigma>) = (hsls \<sigma>)[a := f (hsls \<sigma> ! a)]"
  by (simp add: set_hsl_def)

lemma rgbToHex_truthy [simp]: "truthy (Some (rgbToHex v))"
  by (simp add: truthy_def rgbToHex_def padStart_def)

lemma get_hsl_cached:
  "hslContainer (colors \<sigma> ! c) = Some ref \<Longrightarrow> get_hsl c \<sigma> = Inr (ref, \<sigma>)"
  by (simp add: get_hsl_def)

lemma get_hsl_fill:
  assumes "c < length (colors \<sigma>)" "hslContainer (colors \<sigma> ! c) = None"
  shows "get_hsl c \<sigma> =
     (case hslView (colors \<sigma> ! c) (hsls \<sigma>) of
        Inl e \<Rightarrow> Inl e
      | Inr v \<Rightarrow>
          Inr (length (hsls \<sigma>),
               \<lparr>colors = (colors \<sigma>)[c := (colors \<sigma> ! c)\<lparr>hslContainer := Some (length (hsls \<sigma>))\<rparr>],
                hsls = hsls \<sigma> @ [v]\<rparr>))"
  using assms
  by (auto simp: get_hsl_def calculateHSL_def hslView_def alloc_hsl_def set_color_def Let_def
      split: option.splits)

lemma get_rgb_cached:
  "rgbContainer (colors \<sigma> ! c) = Some v \<Longrightarrow> get_rgb c \<sigma> = Inr (v, \<sigma>)"
  by (simp add: get_rgb_def)

lemma get_rgb_fill:
  assumes "c < length (colors \<sigma>)" "rgbContainer (colors \<sigma> ! c) = None"
  shows "get_rgb c \<sigma> =
     (case rgbView (colors \<sigma> ! c) (hsls \<sigma>) of
        Inl e \<Rightarrow> Inl e
      | Inr v \<Rightarrow> Inr (v, \<sigma>\<lparr>colors := (colors \<sigma>)[c := (colors \<sigma> ! c)\<lparr>rgbContainer := Some v\<rparr>]\<rparr>))"
  using assms
  by (auto simp: get_rgb_def calculateRGB_def rgbView_def set_color_def Let_def
      split: option.splits)

lemma get_hex_cached:
  "truthy (hexContainer (colors \<sigma> ! c)) \<Longrightarrow> get_hex c \<sigma> = Inr (the (hexContainer (colors \<sigma> ! c)), \<sigma>)"
  by (auto simp: get_hex_def truthy_def)

lemma rgbContainer_same: "rgbContainer obj = Some v \<Longrightarrow> obj\<lparr>rgbContainer := Some v\<rparr> = obj"
  by (cases obj) auto

lemma get_hex_fill:
  assumes "c < length (colors \<sigma>)" "\<not> truthy (hexContainer (colors \<sigma> ! c))"
  shows "get_hex c \<sigma> =
     (case rgbView (colors \<sigma> ! c) (hsls \<sigma>) of
        Inl e \<Rightarrow> Inl CouldNotCalculateHex
      | Inr v \<Rightarrow>
          Inr (rgbToHex v,
               \<sigma>\<lparr>colors := (colors \<sigma>)[c := (colors \<sigma> ! c)\<lparr>rgbContainer := Some v,
                                                             hexContainer := Some (rgbToHex v)\<rparr>]\<rparr>))"
  using assms
  by (auto simp: get_hex_def calculateHex_def rgbView_def set_color_def Let_def rgbContainer_same
      split: option.splits)

lemma result_get_hex:
  "c < length (colors \<sigma>) \<Longrightarrow> result (get_hex c \<sigma>) = hexView (colors \<sigma> ! c) (hsls \<sigma>)"
  by (cases "truthy (hexContainer (colors \<sigma> ! c))")
     (auto simp: get_hex_cached get_hex_fill result_def hexView_def rgbView_def split: option.splits)

lemma result_get_rgb:
  "c < length (colors \<sigma>) \<Longrightarrow> result (get_rgb c \<sigma>) = rgbView (colors \<sigma> ! c) (hsls \<sigma>)"
  by (cases "rgbContainer (colors \<sigma> ! c)")
     (auto simp: get_rgb_cached get_rgb_fill result_def rgbView_def split: option.splits sum.splits)

lemma hsl_of_view:
  "c < length (colors \<sigma>) \<Longrightarrow> hsl_of c \<sigma> = hslView (colors \<sigma> ! c) (hsls \<sigma>)"
  by (cases "hslContainer (colors \<sigma> ! c)")
     (auto simp: get_hsl_cached get_hsl_fill hsl_of_def hslView_def split: option.splits sum.splits)

lemma result_get_yuv:
  "c < length (colors \<sigma>) \<Longrightarrow> result (get_yuv c \<sigma>) = yuvView (colors \<sigma> ! c) (hsls \<sigma>)"
  by (auto simp: get_yuv_def calculateYUV_def calculateRGB_def result_def yuvView_def rgbView_def
      set_color_def Let_def split: option.splits sum.splits)

lemma fromHSL_eq:
  "fromHSL v a \<sigma> =
     Inr (length (colors \<sigma>),
          \<lparr>colors = colors \<sigma> @ [\<lparr>hexContainer = None, rgbContainer = None,
                                  hslContainer = Some (length (hsls \<sigma>)), yuvContainer = None,
                                  alpha = a\<rparr>],
           hsls = hsls \<sigma> @ [v]\<rparr>)"
  by (simp add: fromHSL_def new_Color_def alloc_hsl_def alloc_color_def truthy_def)

lemma observe_views:
  "c < length (colors \<sigma>) \<Longrightarrow> observe c \<sigma> = views (colors \<sigma> ! c) (hsls \<sigma>)"
  by (simp add: observe_def views_def result_get_hex result_get_rgb hsl_of_view result_get_yuv
      get_alpha_def)

lemma backed_hslView: "backed obj \<Longrightarrow> \<exists>v. hslView obj hs = Inr v"
  by (auto simp: backed_def hslView_def hexToHsl_def truthy_def split: option.splits if_splits)

lemma backed_rgbView: "backed obj \<Longrightarrow> \<exists>v. rgbView obj hs = Inr v"
  by (auto simp: backed_def rgbView_def split: option.splits if_splits)

lemma views_append:
  assumes "case hslContainer obj of Some ref \<Rightarrow> ref < length hs | None \<Rightarrow> True"
  shows "views obj (hs @ ext) = views obj hs"
  using assms
  by (auto simp: views_def hexView_def rgbView_def hslView_def yuvView_def nth_append
      split: option.splits)

lemma views_fill_hsl:
  assumes "hslContainer obj = None" "hslView obj hs = Inr v"
  shows "views (obj\<lparr>hslContainer := Some (length hs)\<rparr>) (hs @ [v]) = views obj hs"
  using assms
  by (auto simp: views_def hexView_def rgbView_def hslView_def yuvView_def
      split: option.splits if_splits)

lemma views_fill_hex:
  assumes "\<not> truthy (hexContainer obj)" "rgbView obj hs = Inr v"
    and "rgbContainer obj \<noteq> None \<longrightarrow> hslContainer obj = None \<longrightarrow> hexToRgb (rgbToHex v) = Some v"
  shows "views (obj\<lparr>rgbContainer := Some v, hexContainer := Some (rgbToHex v)\<rparr>) hs = views obj hs"
proof -
  have ne: "rgbToHex v \<noteq> []" by (simp add: rgbToHex_def padStart_def)
  show ?thesis
    using assms ne
    by (auto simp: views_def hexView_def rgbView_def hslView_def yuvView_def hexToHsl_def
      split: option.splits if_splits)
qed

lemma get_hsl_eq:
  assumes "c < length (colors \<sigma>)" "hslView (colors \<sigma> ! c) (hsls \<sigma>) = Inr v"
  shows "\<exists>ref. get_hsl c \<sigma> = Inr (ref, fill_hsl v c \<sigma>) \<and> hsls (fill_hsl v c \<sigma>) ! ref = v \<and>
     hslContainer (colors (fill_hsl v c \<sigma>) ! c) = Some ref"
proof (cases "hslContainer (colors \<sigma> ! c)")
  case None
  then show ?thesis using assms by (simp add: get_hsl_fill fill_hsl_def)
next
  case (Some ref)
  then show ?thesis using assms by (simp add: get_hsl_cached fill_hsl_def hslView_def)
qed

lemma fill_hsl_props:
  assumes "c < length (colors \<sigma>)"
  shows "length (colors (fill_hsl v c \<sigma>)) = length (colors \<sigma>)"
    and "alpha (colors (fill_hsl v c \<sigma>) ! c) = alpha (colors \<sigma> ! c)"
    and "length (hsls \<sigma>) \<le> length (hsls (fill_hsl v c \<sigma>))"
  using assms by (simp_all add: fill_hsl_def)

lemma fill_hsl_views:
  assumes "ref_ok d \<sigma>" "c < length (colors \<sigma>)" "hslView (colors \<sigma> ! c) (hsls \<sigma>) = Inr v"
  shows "views (colors (fill_hsl v c \<sigma>) ! d) (hsls (fill_hsl v c \<sigma>)) = views (colors \<sigma> ! d) (hsls \<sigma>)"
    and "ref_ok d (fill_hsl v c \<sigma>)"
proof -
  show "views (colors (fill_hsl v c \<sigma>) ! d) (hsls (fill_hsl v c \<sigma>)) = views (colors \<sigma> ! d) (hsls \<sigma>)"
  proof (cases "hslContainer (colors \<sigma> ! c) = None")
    case True
    show ?thesis
    proof (cases "d = c")
      case True
      with \<open>hslContainer (colors \<sigma> ! c) = None\<close> assms show ?thesis
        by (simp add: fill_hsl_def views_fill_hsl)
    next
      case False
      with \<open>hslContainer (colors \<sigma> ! c) = None\<close> assms show ?thesis
        by (simp add: fill_hsl_def views_append ref_ok_def)
    qed
  next
    case False
    then show ?thesis by (auto simp: fill_hsl_def)
  qed
  show "ref_ok d (fill_hsl v c \<sigma>)"
    using assms by (auto simp: fill_hsl_def ref_ok_def nth_list_update split: option.splits)
qed

section \<open>Operations in closed form\<close>

lemma get_hsl_error:
  assumes "c < length (colors \<sigma>)" "hslView (colors \<sigma> ! c) (hsls \<sigma>) = Inl e"
  shows "get_hsl c \<sigma> = Inl e"
  using assms
  by (cases "hslContainer (colors \<sigma> ! c)") (simp_all add: get_hsl_fill hslView_def)

lemma rebuild_eq:
  assumes "c < length (colors \<sigma>)" "hslView (colors \<sigma> ! c) (hsls \<sigma>) = Inr v"
  shows "bindE (get_hsl c \<sigma>) (\<lambda>(ref, \<sigma>1). fromHSL (F (hsls \<sigma>1 ! ref)) (get_alpha c \<sigma>1) \<sigma>1) =
         Inr (length (colors \<sigma>), produced (F v) (alpha (colors \<sigma> ! c)) v c \<sigma>)"
proof -
  obtain ref where "get_hsl c \<sigma> = Inr (ref, fill_hsl v c \<sigma>)" "hsls (fill_hsl v c \<sigma>) ! ref = v"
    using get_hsl_eq [OF assms] by blast
  then show ?thesis
    using fill_hsl_props [OF assms(1), of v]
    by (simp add: fromHSL_eq produced_def get_alpha_def)
qed

lemma rebuild_error:
  assumes "c < length (colors \<sigma>)" "hslView (colors \<sigma> ! c) (hsls \<sigma>) = Inl e"
  shows "bindE (get_hsl c \<sigma>) f = Inl e"
  using get_hsl_error [OF assms] by simp

lemma shiftHue_eq:
  assumes "c < length (colors \<sigma>)" "hslView (colors \<sigma> ! c) (hsls \<sigma>) = Inr v"
  shows "shiftHue c amount \<sigma> =
     Inr (length (colors \<sigma>),
          produced \<lparr>hsl_h = modulo (hsl_h v + amount) 1, hsl_s = hsl_s v, hsl_l = hsl_l v\<rparr>
            (alpha (colors \<sigma> ! c)) v c \<sigma>)"
  unfolding shiftHue_def
  by (rule rebuild_eq
       [where F = "\<lambda>v. \<lparr>hsl_h = modulo (hsl_h v + amount) 1, hsl_s = hsl_s v, hsl_l = hsl_l v\<rparr>",
        OF assms])

lemma clone_eq:
  assumes "c < length (colors \<sigma>)" "hslView (colors \<sigma> ! c) (hsls \<sigma>) = Inr v"
  shows "clone c \<sigma> = Inr (length (colors \<sigma>), produced v (alpha (colors \<sigma> ! c)) v c \<sigma>)"
  unfolding clone_def
  by (rule rebuild_eq [where F = "\<lambda>v. v", OF assms])

lemma nth_append_len: "length xs = n \<Longrightarrow> (xs @ [a]) ! n = a"
  by auto

lemma upd_append_len: "length xs = n \<Longrightarrow> (xs @ [a])[n := b] = xs @ [b]"
  by auto

lemma produced_new:
  assumes "c < length (colors \<sigma>)"
  shows "colors (produced w a v c \<sigma>) ! length (colors \<sigma>) =
           \<lparr>hexContainer = None, rgbContainer = None,
            hslContainer = Some (length (hsls (fill_hsl v c \<sigma>))), yuvContainer = None, alpha = a\<rparr>"
    and "hsls (produced w a v c \<sigma>) ! length (hsls (fill_hsl v c \<sigma>)) = w"
    and "length (colors \<sigma>) < length (colors (produced w a v c \<sigma>))"
  using fill_hsl_props [OF assms, of v] by (simp_all add: produced_def nth_append_len)

lemma withAlpha_eq:
  assumes "c < length (colors \<sigma>)" "hslView (colors \<sigma> ! c) (hsls \<sigma>) = Inr v"
  shows "withAlpha c a \<sigma> = Inr (length (colors \<sigma>), produced v a v c \<sigma>)"
  using fill_hsl_props [OF assms(1), of v]
  by (simp add: withAlpha_def clone_eq [OF assms] set_color_def produced_def nth_append_len
      upd_append_len)

lemma withHue_eq:
  assumes "c < length (colors \<sigma>)" "hslView (colors \<sigma> ! c) (hsls \<sigma>) = Inr v"
  shows "withHue c x \<sigma> =
     Inr (length (colors \<sigma>), produced (v\<lparr>hsl_h := x\<rparr>) (alpha (colors \<sigma> ! c)) v c \<sigma>)"
  using fill_hsl_props [OF assms(1), of v]
  by (simp add: withHue_def clone_eq [OF assms]
      get_hsl_cached [where ref = "length (hsls (fill_hsl v c \<sigma>))"]
      set_color_def set_hsl_def produced_def nth_append_len upd_append_len)

lemma withSaturation_eq:
  assumes "c < length (colors \<sigma>)" "hslView (colors \<sigma> ! c) (hsls \<sigma>) = Inr v"
  shows "withSaturation c x \<sigma> =
     Inr (length (colors \<sigma>), produced (v\<lparr>hsl_s := x\<rparr>) (alpha (colors \<sigma> ! c)) v c \<sigma>)"
  using fill_hsl_props [OF assms(1), of v]
  by (simp add: withSaturation_def clone_eq [OF assms]
      get_hsl_cached [where ref = "length (hsls (fill_hsl v c \<sigma>))"]
      set_color_def set_hsl_def produced_def nth_append_len upd_append_len)

lemma withLightness_eq:
  assumes "c < length (colors \<sigma>)" "hslView (colors \<sigma> ! c) (hsls \<sigma>) = Inr v"
  shows "withLightness c x \<sigma> =
     Inr (length (colors \<sigma>), produced (v\<lparr>hsl_l := x\<rparr>) (alpha (colors \<sigma> ! c)) v c \<sigma>)"
  using fill_hsl_props [OF assms(1), of v]
  by (simp add: withLightness_def clone_eq [OF assms]
      get_hsl_cached [where ref = "length (hsls (fill_hsl v c \<sigma>))"]
      set_color_def set_hsl_def produced_def nth_append_len upd_append_len)

lemma produced_views_new:
  assumes "c < length (colors \<sigma>)"
  shows "views (colors (produced w a v c \<sigma>) ! length (colors \<sigma>)) (hsls (produced w a v c \<sigma>)) =
     (Inr (rgbToHex (hslToRgb w)), Inr (hslToRgb w), Inr w, Inr (rgbToYuv (hslToRgb w)), a)"
  using produced_new [OF assms, of w a v]
  by (simp add: views_def hexView_def rgbView_def hslView_def yuvView_def truthy_def)

lemma produced_views_old:
  assumes "ref_ok d \<sigma>" "c < length (colors \<sigma>)" "hslView (colors \<sigma> ! c) (hsls \<sigma>) = Inr v"
  shows "views (colors (produced w a v c \<sigma>) ! d) (hsls (produced w a v c \<sigma>)) =
         views (colors \<sigma> ! d) (hsls \<sigma>)"
proof -
  have ok: "ref_ok d (fill_hsl v c \<sigma>)" by (rule fill_hsl_views(2) [OF assms])
  then have "views (colors (produced w a v c \<sigma>) ! d) (hsls (produced w a v c \<sigma>)) =
        views (colors (fill_hsl v c \<sigma>) ! d) (hsls (fill_hsl v c \<sigma>))"
    by (simp add: produced_def nth_append views_append ref_ok_def)
  then show ?thesis by (simp add: fill_hsl_views(1) [OF assms])
qed

section \<open>The modulo of \<^verbatim>\<open>shiftHue\<close>\<close>

lemma js_rem_1: "js_rem x 1 = x - real_of_int (js_trunc x)"
  by (simp add: js_rem_def)

lemma modulo_1: "modulo x 1 = x - real_of_int \<lfloor>x\<rfloor>"
proof (cases "0 \<le> x")
  case True
  have "\<lfloor>x - real_of_int \<lfloor>x\<rfloor> + 1\<rfloor> = 1" by linarith
  then show ?thesis using True by (simp add: modulo_def js_rem_1 js_trunc_def)
next
  case False
  then have neg: "x < 0" by simp
  show ?thesis
  proof (cases "x = real_of_int \<lfloor>x\<rfloor>")
    case True
    then obtain n where n: "x = real_of_int n" by blast
    show ?thesis using neg unfolding n by (simp add: modulo_def js_rem_1 js_trunc_def)
  next
    case False
    then have c: "\<lceil>x\<rceil> = \<lfloor>x\<rfloor> + 1" by (simp add: ceiling_altdef)
    have "\<lfloor>x - real_of_int (\<lfloor>x\<rfloor> + 1) + 1\<rfloor> = 0" using False by linarith
    then show ?thesis using neg c by (simp add: modulo_def js_rem_1 js_trunc_def)
  qed
qed

lemma modulo_1_range: "0 \<le> modulo x 1 \<and> modulo x 1 < 1"
  unfolding modulo_1 by linarith

lemma op_cases:
  assumes "c < length (colors \<sigma>)"
  shows "bindE (get_hsl c \<sigma>) (\<lambda>(ref, \<sigma>1). fromHSL (F (hsls \<sigma>1 ! ref)) (get_alpha c \<sigma>1) \<sigma>1) =
     (case hslView (colors \<sigma> ! c) (hsls \<sigma>) of
        Inl e \<Rightarrow> Inl e
      | Inr v \<Rightarrow> Inr (length (colors \<sigma>), produced (F v) (alpha (colors \<sigma> ! c)) v c \<sigma>))"
  by (cases "hslView (colors \<sigma> ! c) (hsls \<sigma>)")
     (simp_all add: rebuild_error [OF assms] rebuild_eq [OF assms])

lemma produced_hsl_only:
  assumes "c < length (colors \<sigma>)"
  shows "hsl_only (length (colors \<sigma>)) (produced w a v c \<sigma>)"
proof -
  let ?k = "length (colors \<sigma>)" and ?\<tau> = "produced w a v c \<sigma>"
  note new = produced_new [OF assms, of w a v]
  have j: "result (toJSON ?k ?\<tau>) =
      Inr [''h'' \<mapsto> JNum (hsl_h w), ''s'' \<mapsto> JNum (hsl_s w), ''l'' \<mapsto> JNum (hsl_l w),
           ''alpha'' \<mapsto> JNum a]"
    using new by (simp add: toJSON_def result_def get_alpha_def)
  have t: "result (toString ?k ?\<tau>) =
      Inr (CssHSLA (real_of_int (js_round (hsl_h w * 360 * 10000)) / 10000)
             (real_of_int (js_round (hsl_s w * 100 * 10000)) / 10000)
             (real_of_int (js_round (hsl_l w * 100 * 10000)) / 10000) a)"
    using new
    by (simp add: toString_def cssHSLA_def result_def get_alpha_def
        get_hsl_cached [where ref = "length (hsls (fill_hsl v c \<sigma>))"])
  have "\<exists>h s l a. result (toJSON ?k ?\<tau>) =
          Inr [''h'' \<mapsto> JNum h, ''s'' \<mapsto> JNum s, ''l'' \<mapsto> JNum l, ''alpha'' \<mapsto> JNum a]"
    using j by blast
  moreover have "\<exists>h s l a. result (toString ?k ?\<tau>) = Inr (CssHSLA h s l a)"
    using t by blast
  ultimately show ?thesis
    unfolding hsl_only_def using new by simp
qed

lemma unary_returns:
  assumes "c < length (colors \<sigma>)"
    and "(case hslView (colors \<sigma> ! c) (hsls \<sigma>) of
            Inl e \<Rightarrow> Inl e
          | Inr v \<Rightarrow> Inr (length (colors \<sigma>), produced (W v) (A v) v c \<sigma>)) = Inr (k, \<sigma>')"
  shows "\<exists>v. hslView (colors \<sigma> ! c) (hsls \<sigma>) = Inr v \<and> k = length (colors \<sigma>) \<and>
             \<sigma>' = produced (W v) (A v) v c \<sigma>"
  using assms(2) by (cases "hslView (colors \<sigma> ! c) (hsls \<sigma>)") auto

lemma darken_cases:
  assumes "c < length (colors \<sigma>)"
  shows "darken c p \<sigma> =
     (case hslView (colors \<sigma> ! c) (hsls \<sigma>) of
        Inl e \<Rightarrow> Inl e
      | Inr v \<Rightarrow>
          Inr (length (colors \<sigma>),
               produced \<lparr>hsl_h = hsl_h v, hsl_s = hsl_s v,
                         hsl_l = max (min (hsl_l v - p / 100) 1) 0\<rparr>
                 (alpha (colors \<sigma> ! c)) v c \<sigma>))"
  unfolding darken_def
  by (rule op_cases
       [where F = "\<lambda>v. \<lparr>hsl_h = hsl_h v, hsl_s = hsl_s v, hsl_l = max (min (hsl_l v - p / 100) 1) 0\<rparr>",
        OF assms])

lemma saturate_cases:
  assumes "c < length (colors \<sigma>)"
  shows "saturate c p \<sigma> =
     (case hslView (colors \<sigma> ! c) (hsls \<sigma>) of
        Inl e \<Rightarrow> Inl e
      | Inr v \<Rightarrow>
          Inr (length (colors \<sigma>),
               produced \<lparr>hsl_h = hsl_h v, hsl_s = max (min (hsl_s v + p / 100) 1) 0,
                         hsl_l = hsl_l v\<rparr>
                 (alpha (colors \<sigma> ! c)) v c \<sigma>))"
  unfolding saturate_def
  by (rule op_cases
       [where F = "\<lambda>v. \<lparr>hsl_h = hsl_h v, hsl_s = max (min (hsl_s v + p / 100) 1) 0, hsl_l = hsl_l v\<rparr>",
        OF assms])

lemma shiftHue_cases:
  assumes "c < length (colors \<sigma>)"
  shows "shiftHue c amount \<sigma> =
     (case hslView (colors \<sigma> ! c) (hsls \<sigma>) of
        Inl e \<Rightarrow> Inl e
      | Inr v \<Rightarrow>
          Inr (length (colors \<sigma>),
               produced \<lparr>hsl_h = modulo (hsl_h v + amount) 1, hsl_s = hsl_s v, hsl_l = hsl_l v\<rparr>
                 (alpha (colors \<sigma> ! c)) v c \<sigma>))"
  unfolding shiftHue_def
  by (rule op_cases
       [where F = "\<lambda>v. \<lparr>hsl_h = modulo (hsl_h v + amount) 1, hsl_s = hsl_s v, hsl_l = hsl_l v\<rparr>",
        OF assms])

lemma clone_cases:
  assumes "c < length (colors \<sigma>)"
  shows "clone c \<sigma> =
     (case hslView (colors \<sigma> ! c) (hsls \<sigma>) of
        Inl e \<Rightarrow> Inl e
      | Inr v \<Rightarrow> Inr (length (colors \<sigma>), produced v (alpha (colors \<sigma> ! c)) v c \<sigma>))"
  unfolding clone_def
  by (rule op_cases [where F = "\<lambda>v. v", OF assms])

lemma withAlpha_cases:
  assumes "c < length (colors \<sigma>)"
  shows "withAlpha c a \<sigma> =
     (case hslView (colors \<sigma> ! c) (hsls \<sigma>) of
        Inl e \<Rightarrow> Inl e
      | Inr v \<Rightarrow> Inr (length (colors \<sigma>), produced v a v c \<sigma>))"
proof (cases "hslView (colors \<sigma> ! c) (hsls \<sigma>)")
  case (Inl e)
  then show ?thesis by (simp add: withAlpha_def clone_cases [OF assms])
next
  case (Inr v)
  then show ?thesis by (simp add: withAlpha_eq [OF assms])
qed

lemma withHue_cases:
  assumes "c < length (colors \<sigma>)"
  shows "withHue c x \<sigma> =
     (case hslView (colors \<sigma> ! c) (hsls \<sigma>) of
        Inl e \<Rightarrow> Inl e
      | Inr v \<Rightarrow> Inr (length (colors \<sigma>), produced (v\<lparr>hsl_h := x\<rparr>) (alpha (colors \<sigma> ! c)) v c \<sigma>))"
proof (cases "hslView (colors \<sigma> ! c) (hsls \<sigma>)")
  case (Inl e)
  then show ?thesis by (simp add: withHue_def clone_cases [OF assms])
next
  case (Inr v)
  then show ?thesis by (simp add: withHue_eq [OF assms])
qed

lemma withSaturation_cases:
  assumes "c < length (colors \<sigma>)"
  shows "withSaturation c x \<sigma> =
     (case hslView (colors \<sigma> ! c) (hsls \<sigma>) of
        Inl e \<Rightarrow> Inl e
      | Inr v \<Rightarrow> Inr (length (colors \<sigma>), produced (v\<lparr>hsl_s := x\<rparr>) (alpha (colors \<sigma> ! c)) v c \<sigma>))"
proof (cases "hslView (colors \<sigma> ! c) (hsls \<sigma>)")
  case (Inl e)
  then show ?thesis by (simp add: withSaturation_def clone_cases [OF assms])
next
  case (Inr v)
  then show ?thesis by (simp add: withSaturation_eq [OF assms])
qed

lemma withLightness_cases:
  assumes "c < length (colors \<sigma>)"
  shows "withLightness c x \<sigma> =
     (case hslView (colors \<sigma> ! c) (hsls \<sigma>) of
        Inl e \<Rightarrow> Inl e
      | Inr v \<Rightarrow> Inr (length (colors \<sigma>), produced (v\<lparr>hsl_l := x\<rparr>) (alpha (colors \<sigma> ! c)) v c \<sigma>))"
proof (cases "hslView (colors \<sigma> ! c) (hsls \<sigma>)")
  case (Inl e)
  then show ?thesis by (simp add: withLightness_def clone_cases [OF assms])
next
  case (Inr v)
  then show ?thesis by (simp add: withLightness_eq [OF assms])
qed

lemma produced_observe_new:
  assumes "c < length (colors \<sigma>)"
  shows "observe (length (colors \<sigma>)) (produced w a v c \<sigma>) =
     (Inr (rgbToHex (hslToRgb w)), Inr (hslToRgb w), Inr w, Inr (rgbToYuv (hslToRgb w)), a)"
  by (simp add: observe_views [OF produced_new(3) [OF assms]] produced_views_new [OF assms])

lemma produced_observe_old:
  assumes "ref_ok c \<sigma>" "hslView (colors \<sigma> ! c) (hsls \<sigma>) = Inr v"
  shows "observe c (produced w a v c \<sigma>) = observe c \<sigma>"
proof -
  have c: "c < length (colors \<sigma>)" using assms(1) by (simp add: ref_ok_def)
  have "c < length (colors (produced w a v c \<sigma>))" using produced_new(3) [OF c, of w a v] c by simp
  then show ?thesis
    by (simp add: observe_views c produced_views_old [OF assms(1) c assms(2)])
qed

section \<open>Rounding to a double\<close>

text \<open>
  \<open>fl\<close> is monotone, odd, exact on the numbers that a double holds (an integer below
  \<open>2 ^ 53\<close> times a power of two), and off by at most half an \<open>ulp\<close>; \<open>fl_eval\<close> computes
  it in a given binade.
\<close>

lemma two_powi_pos: "0 < (2::real) powi e"
  by (rule zero_less_power_int) simp

lemma powi_shift: "j = a + int k \<Longrightarrow> (2::real) powi j = 2 powi a * 2 ^ k"
  by (simp add: power_int_add)

lemma rhe_of_int [simp]: "rhe (of_int n) = n"
  by (simp add: rhe_def)

lemma rhe_range: "\<lfloor>y\<rfloor> \<le> rhe y \<and> rhe y \<le> \<lfloor>y\<rfloor> + 1"
  by (simp add: rhe_def Let_def)

lemma rhe_error: "\<bar>of_int (rhe y) - y\<bar> \<le> 1 / 2"
proof -
  define f where "f = \<lfloor>y\<rfloor>"
  have "of_int f \<le> y" "y < of_int f + 1" unfolding f_def by linarith+
  then show ?thesis unfolding rhe_def Let_def f_def [symmetric] by (auto simp: abs_if)
qed

lemma rhe_mono:
  assumes "x \<le> y"
  shows "rhe x \<le> rhe y"
proof (cases "\<lfloor>x\<rfloor> = \<lfloor>y\<rfloor>")
  case True
  then show ?thesis using assms by (auto simp: rhe_def Let_def)
next
  case False
  then have "\<lfloor>x\<rfloor> + 1 \<le> \<lfloor>y\<rfloor>" using floor_mono [OF assms] by linarith
  then show ?thesis using rhe_range [of x] rhe_range [of y] by linarith
qed

lemma rhe_minus: "rhe (- y) = - rhe y"
proof (cases "of_int \<lfloor>y\<rfloor> = y")
  case True
  have "rhe (of_int (- \<lfloor>y\<rfloor>)) = - \<lfloor>y\<rfloor>" by (rule rhe_of_int)
  moreover have "rhe (of_int \<lfloor>y\<rfloor>) = \<lfloor>y\<rfloor>" by (rule rhe_of_int)
  ultimately show ?thesis using True by (simp del: rhe_of_int)
next
  case False
  define f where "f = \<lfloor>y\<rfloor>"
  have lt: "of_int f < y" "y < of_int f + 1" using False unfolding f_def by linarith+
  have "of_int (- f - 1) \<le> - y" "- y < of_int (- f - 1) + 1" using lt by simp_all
  then have g: "\<lfloor>- y\<rfloor> = - f - 1" by (rule floor_unique)
  show ?thesis unfolding rhe_def Let_def g f_def [symmetric] using lt by auto
qed

lemma expo_bounds:
  assumes "0 < y"
  shows "2 powi expo y \<le> y" "y < 2 powi (expo y + 1)"
proof -
  have "2 powi expo y \<le> y \<and> y < 2 powi (expo y + 1)"
  proof (cases "1 \<le> y")
    case True
    define n where "n = \<lfloor>y\<rfloor>"
    have n: "0 < n" "of_int n \<le> y" "y < of_int n + 1" using True by (simp_all add: n_def)
    have b: "2 ^ nat (bitlen n - 1) \<le> n" "n < 2 ^ nat (bitlen n)"
      using bitlen_bounds [OF n(1)] by simp_all
    have p: "0 < bitlen n" using n(1) bitlen_eq_zero_iff [of n] bitlen_nonneg [of n] by linarith
    have e: "expo y = bitlen n - 1" using True by (simp add: expo_def n_def)
    have "(2::real) powi (bitlen n - 1) = of_int (2 ^ nat (bitlen n - 1))"
      using p by (simp add: power_int_def)
    also have "\<dots> \<le> of_int n" using b(1) by (simp only: of_int_le_iff)
    finally have lo: "2 powi expo y \<le> y" using n(2) by (simp add: e)
    have "n + 1 \<le> 2 ^ nat (bitlen n)" using b(2) by linarith
    then have "of_int (n + 1) \<le> (of_int (2 ^ nat (bitlen n)) :: real)" by (simp only: of_int_le_iff)
    moreover have "(2::real) powi (bitlen n - 1 + 1) = of_int (2 ^ nat (bitlen n))"
      using p by (simp add: power_int_def)
    ultimately have "y < 2 powi (expo y + 1)" using n(3) e by simp
    with lo show ?thesis by simp
  next
    case False
    define z where "z = 1 / y"
    define m where "m = \<lceil>z\<rceil>"
    have z: "1 < z" using False assms by (simp add: z_def)
    have m: "of_int m - 1 < z" "z \<le> of_int m" unfolding m_def by linarith+
    have m2: "0 < m - 1" using z m(2) by linarith
    define k where "k = bitlen (m - 1)"
    have b: "2 ^ nat (k - 1) \<le> m - 1" "m - 1 < 2 ^ nat k"
      using bitlen_bounds [OF m2] by (simp_all add: k_def)
    have p: "0 < k" using m2 bitlen_eq_zero_iff [of "m - 1"] bitlen_nonneg [of "m - 1"]
      by (simp add: k_def)
    have e: "expo y = - k" using False by (simp add: expo_def k_def m_def z_def)
    have "m \<le> 2 ^ nat k" using b(2) by linarith
    then have "of_int m \<le> (of_int (2 ^ nat k) :: real)" by (simp only: of_int_le_iff)
    moreover have "(of_int (2 ^ nat k) :: real) = 2 ^ nat k" by simp
    ultimately have zk: "z \<le> 2 ^ nat k" using m(2) by linarith
    have "(of_int (2 ^ nat (k - 1)) :: real) \<le> of_int (m - 1)" using b(1) by (simp only: of_int_le_iff)
    moreover have "(of_int (2 ^ nat (k - 1)) :: real) = 2 ^ nat (k - 1)" "(of_int (m - 1) :: real) = of_int m - 1"
      by simp_all
    ultimately have kz: "2 ^ nat (k - 1) < z" using m(1) by linarith
    have y: "y = 1 / z" using assms by (simp add: z_def)
    have "(2::real) powi (- k) = 1 / 2 ^ nat k"
      using p by (simp add: power_int_def field_simps)
    also have "\<dots> \<le> 1 / z" using zk z by (intro divide_left_mono) simp_all
    finally have lo: "2 powi expo y \<le> y" using e y by simp
    have "(2::real) powi (- k + 1) = 1 / 2 ^ nat (k - 1)"
      using p by (cases "k = 1") (simp_all add: power_int_def field_simps nat_diff_distrib)
    moreover have "1 / z < 1 / 2 ^ nat (k - 1)" using kz z by (intro divide_strict_left_mono) (simp_all add: zero_less_mult_iff)
    ultimately have "y < 2 powi (expo y + 1)" using e y by simp
    with lo show ?thesis by simp
  qed
  then show "2 powi expo y \<le> y" "y < 2 powi (expo y + 1)" by simp_all
qed

lemma expo_unique:
  assumes "2 powi e \<le> y" "y < 2 powi (e + 1)"
  shows "expo y = e"
proof -
  have y: "0 < y" using assms(1) two_powi_pos [of e] by linarith
  note b = expo_bounds [OF y]
  have "\<not> e + 1 \<le> expo y"
  proof
    assume "e + 1 \<le> expo y"
    then have "(2::real) powi (e + 1) \<le> 2 powi expo y" by (intro power_int_increasing) simp_all
    then show False using b(1) assms(2) by linarith
  qed
  moreover have "\<not> expo y + 1 \<le> e"
  proof
    assume "expo y + 1 \<le> e"
    then have "(2::real) powi (expo y + 1) \<le> 2 powi e" by (intro power_int_increasing) simp_all
    then show False using b(2) assms(1) by linarith
  qed
  ultimately show ?thesis by linarith
qed

lemma expo_mono:
  assumes "0 < x" "x \<le> y"
  shows "expo x \<le> expo y"
proof (rule ccontr)
  assume "\<not> expo x \<le> expo y"
  then have "expo y + 1 \<le> expo x" by linarith
  then have "(2::real) powi (expo y + 1) \<le> 2 powi expo x" by (intro power_int_increasing) simp_all
  then show False
    using expo_bounds(1) [OF assms(1)] expo_bounds(2) [of y] assms by linarith
qed

lemma ulp_pos: "0 < ulp x"
  by (simp add: ulp_def zero_less_power_int)

lemma ulp_minus: "ulp (- x) = ulp x"
  by (simp add: ulp_def)

lemma fl_0 [simp]: "fl 0 = 0"
  by (simp add: fl_def)

lemma fl_minus: "fl (- x) = - fl x"
  by (simp add: fl_def ulp_minus rhe_minus)

lemma fl_nonneg:
  assumes "0 \<le> x"
  shows "0 \<le> fl x"
proof -
  have "0 \<le> x / ulp x" using assms ulp_pos [of x] by simp
  then have "0 \<le> \<lfloor>x / ulp x\<rfloor>" by simp
  then have "0 \<le> rhe (x / ulp x)" using rhe_range [of "x / ulp x"] by linarith
  then show ?thesis using ulp_pos [of x] by (simp add: fl_def)
qed

lemma ulp_eq:
  assumes "2 powi e \<le> \<bar>x\<bar>" "\<bar>x\<bar> < 2 powi (e + 1)"
  shows "ulp x = 2 powi (max e (- 1022) - 52)"
  by (simp add: ulp_def expo_unique [OF assms])

lemma fl_eval:
  assumes "2 powi e \<le> \<bar>x\<bar>" "\<bar>x\<bar> < 2 powi (e + 1)" "- 1022 \<le> e"
  shows "fl x = 2 powi (e - 52) * of_int (rhe (x / 2 powi (e - 52)))"
proof -
  have "x \<noteq> 0"
  proof
    assume "x = 0"
    then have "2 powi e \<le> (0::real)" using assms(1) by simp
    then show False using two_powi_pos [of e] by linarith
  qed
  moreover have "max e (- 1022) = e" using assms(3) by simp
  ultimately show ?thesis by (simp add: fl_def ulp_eq [OF assms(1,2)])
qed

lemma ulp_upper:
  assumes "0 < x"
  shows "x / ulp x < 2 ^ 53"
proof -
  define e where "e = max (expo x) (- 1022)"
  have u: "ulp x = 2 powi (e - 52)" using assms by (simp add: ulp_def e_def)
  have "x < 2 powi (expo x + 1)" using expo_bounds(2) [OF assms] .
  also have "\<dots> \<le> 2 powi (e + 1)" by (intro power_int_increasing) (simp_all add: e_def)
  also have "\<dots> = 2 powi (e - 52) * 2 ^ 53" by (rule powi_shift) simp
  finally show ?thesis using two_powi_pos [of "e - 52"] by (simp add: u field_simps)
qed

lemma ulp_lower:
  assumes "0 < x" "- 1022 \<le> expo x"
  shows "2 ^ 52 \<le> x / ulp x"
proof -
  have u: "ulp x = 2 powi (expo x - 52)" using assms by (simp add: ulp_def max_def)
  have "(2::real) powi expo x = 2 powi (expo x - 52) * 2 ^ 52" by (rule powi_shift) simp
  then show ?thesis
    using expo_bounds(1) [OF assms(1)] two_powi_pos [of "expo x - 52"] by (simp add: u field_simps)
qed

lemma fl_upper:
  assumes "0 < x"
  shows "fl x \<le> ulp x * 2 ^ 53"
proof -
  have "rhe (x / ulp x) \<le> rhe (of_int (2 ^ 53))"
    by (rule rhe_mono) (use ulp_upper [OF assms] in simp)
  then have "rhe (x / ulp x) \<le> 2 ^ 53" by (simp only: rhe_of_int)
  then have "(of_int (rhe (x / ulp x)) :: real) \<le> of_int (2 ^ 53)" by (simp only: of_int_le_iff)
  then show ?thesis using assms ulp_pos [of x] by (simp add: fl_def)
qed

lemma fl_lower:
  assumes "0 < x" "- 1022 \<le> expo x"
  shows "ulp x * 2 ^ 52 \<le> fl x"
proof -
  have "rhe (of_int (2 ^ 52)) \<le> rhe (x / ulp x)"
    by (rule rhe_mono) (use ulp_lower [OF assms] in simp)
  then have "2 ^ 52 \<le> rhe (x / ulp x)" by (simp only: rhe_of_int)
  then have "(of_int (2 ^ 52) :: real) \<le> of_int (rhe (x / ulp x))" by (simp only: of_int_le_iff)
  then show ?thesis using assms ulp_pos [of x] by (simp add: fl_def)
qed

lemma fl_mono_pos:
  assumes "0 < x" "x \<le> y"
  shows "fl x \<le> fl y"
proof -
  define ex where "ex = max (expo x) (- 1022)"
  define ey where "ey = max (expo y) (- 1022)"
  have y: "0 < y" using assms by linarith
  have ux: "ulp x = 2 powi (ex - 52)" using assms by (simp add: ulp_def ex_def)
  have uy: "ulp y = 2 powi (ey - 52)" using y by (simp add: ulp_def ey_def)
  have le: "ex \<le> ey" using expo_mono [OF assms] by (simp add: ex_def ey_def)
  show ?thesis
  proof (cases "ex = ey")
    case True
    then have u: "ulp x = ulp y" by (simp add: ux uy)
    have "x / ulp y \<le> y / ulp y" using assms(2) ulp_pos [of y] by (simp add: divide_right_mono)
    then have "rhe (x / ulp y) \<le> rhe (y / ulp y)" by (rule rhe_mono)
    then have "(of_int (rhe (x / ulp y)) :: real) \<le> of_int (rhe (y / ulp y))" by (simp only: of_int_le_iff)
    then show ?thesis using assms y ulp_pos [of y] by (simp add: fl_def u)
  next
    case False
    then have lt: "ex + 1 \<le> ey" using le by linarith
    then have n: "- 1022 \<le> expo y" "ey = expo y" by (simp_all add: ex_def ey_def max_def split: if_splits)
    have "fl x \<le> ulp x * 2 ^ 53" by (rule fl_upper [OF assms(1)])
    also have "\<dots> = 2 powi (ex + 1)"
      using powi_shift [of "ex + 1" "ex - 52" 53] by (simp add: ux)
    also have "\<dots> \<le> 2 powi ey" using lt by (intro power_int_increasing) simp_all
    also have "\<dots> = ulp y * 2 ^ 52"
      using powi_shift [of ey "ey - 52" 52] by (simp add: uy)
    also have "\<dots> \<le> fl y" by (rule fl_lower [OF y n(1)])
    finally show ?thesis .
  qed
qed

lemma fl_mono:
  assumes "x \<le> y"
  shows "fl x \<le> fl y"
proof -
  consider "0 < x" | "x \<le> 0" "0 \<le> y" | "y < 0" using assms by linarith
  then show ?thesis
  proof cases
    case 1
    then show ?thesis by (rule fl_mono_pos) (rule assms)
  next
    case 2
    have "fl x \<le> 0" using fl_nonneg [of "- x"] 2(1) by (simp add: fl_minus)
    then show ?thesis using fl_nonneg [OF 2(2)] by linarith
  next
    case 3
    have "fl (- y) \<le> fl (- x)" by (rule fl_mono_pos) (use 3 assms in simp_all)
    then show ?thesis by (simp add: fl_minus)
  qed
qed

lemma fl_repr:
  assumes "x = of_int n * 2 powi j" "\<bar>n\<bar> < 2 ^ 53" "- 1074 \<le> j"
  shows "fl x = x"
proof (cases "x = 0")
  case True
  then show ?thesis by simp
next
  case False
  define e where "e = max (expo \<bar>x\<bar>) (- 1022)"
  have u: "ulp x = 2 powi (e - 52)" by (simp add: ulp_def e_def)
  have ax: "0 < \<bar>x\<bar>" using False by simp
  have "\<bar>x\<bar> = of_int \<bar>n\<bar> * 2 powi j" by (simp add: assms(1) abs_mult)
  also have "\<dots> < of_int (2 ^ 53) * 2 powi j"
    using assms(2) by (intro mult_strict_right_mono) (simp_all only: of_int_less_iff zero_less_power_int zero_less_numeral)
  also have "\<dots> = 2 powi (j + 53)"
    using powi_shift [of "j + 53" j 53] by simp
  finally have "2 powi expo \<bar>x\<bar> < (2::real) powi (j + 53)"
    using expo_bounds(1) [OF ax] by linarith
  then have "expo \<bar>x\<bar> < j + 53"
    using power_int_increasing [of "j + 53" "expo \<bar>x\<bar>" "2::real"] by (cases "expo \<bar>x\<bar> < j + 53") simp_all
  then have le: "e - 52 \<le> j" using assms(3) by (simp add: e_def)
  define k where "k = nat (j - (e - 52))"
  have j: "j = (e - 52) + int k" using le by (simp add: k_def)
  have pj: "(2::real) powi j = 2 powi (e - 52) * 2 ^ k" by (rule powi_shift [OF j])
  have xe: "x = of_int (n * 2 ^ k) * 2 powi (e - 52)" by (simp add: assms(1) pj)
  have "x / 2 powi (e - 52) = of_int (n * 2 ^ k)"
    using two_powi_pos [of "e - 52"] by (subst xe) simp
  then have "rhe (x / 2 powi (e - 52)) = n * 2 ^ k" by (simp only: rhe_of_int)
  then have "fl x = 2 powi (e - 52) * of_int (n * 2 ^ k)" using False by (simp only: fl_def u if_False)
  then show ?thesis using xe by simp
qed

lemma fl_of_int:
  assumes "\<bar>n\<bar> < 2 ^ 53"
  shows "fl (of_int n) = of_int n"
  using fl_repr [of "of_int n" n 0] assms by simp

lemma fl_between:
  assumes "of_int m \<le> x" "x \<le> of_int n" "\<bar>m\<bar> < 2 ^ 53" "\<bar>n\<bar> < 2 ^ 53"
  shows "of_int m \<le> fl x \<and> fl x \<le> of_int n"
  using fl_mono [OF assms(1)] fl_mono [OF assms(2)] fl_of_int [OF assms(3)] fl_of_int [OF assms(4)]
  by simp

lemma fl_error:
  "\<bar>fl x - x\<bar> \<le> ulp x / 2"
proof (cases "x = 0")
  case True
  then show ?thesis using ulp_pos [of 0] by simp
next
  case False
  have "\<bar>of_int (rhe (x / ulp x)) - x / ulp x\<bar> \<le> 1 / 2" by (rule rhe_error)
  then have "\<bar>of_int (rhe (x / ulp x)) - x / ulp x\<bar> * ulp x \<le> 1 / 2 * ulp x"
    using ulp_pos [of x] by (intro mult_right_mono) simp_all
  moreover have "\<bar>of_int (rhe (x / ulp x)) - x / ulp x\<bar> * ulp x = \<bar>fl x - x\<bar>"
    using ulp_pos [of x] False by (simp add: fl_def abs_mult [symmetric] field_simps)
  ultimately show ?thesis by simp
qed

lemma fl_grid:
  assumes "x / 2 powi j \<in> \<int>" "- 1074 \<le> j"
  shows "fl x / 2 powi j \<in> \<int>"
proof (cases "x = 0")
  case True
  then show ?thesis by simp
next
  case False
  define e where "e = max (expo \<bar>x\<bar>) (- 1022) - 52"
  have u: "ulp x = 2 powi e" by (simp add: ulp_def e_def)
  show ?thesis
  proof (cases "j \<le> e")
    case True
    define k where "k = nat (e - j)"
    have "(2::real) powi e = 2 powi j * 2 ^ k"
      by (rule powi_shift) (use True in \<open>simp add: k_def\<close>)
    then have "fl x / 2 powi j = of_int (2 ^ k * rhe (x / ulp x))"
      using False two_powi_pos [of j] by (simp add: fl_def u)
    then show ?thesis by (simp only: Ints_of_int)
  next
    case False
    define k where "k = nat (j - e)"
    have pj: "(2::real) powi j = 2 powi e * 2 ^ k"
      by (rule powi_shift) (use False in \<open>simp add: k_def\<close>)
    obtain n :: int where n: "x / 2 powi j = of_int n" using assms(1) by (auto elim: Ints_cases)
    then have x: "x = of_int n * 2 powi j" using two_powi_pos [of j] by (simp add: field_simps)
    then have xe: "x = of_int (n * 2 ^ k) * 2 powi e" by (simp add: pj)
    have "x / 2 powi e = of_int (n * 2 ^ k)"
      using two_powi_pos [of e] by (subst xe) simp
    then have "rhe (x / 2 powi e) = n * 2 ^ k" by (simp only: rhe_of_int)
    then have "fl x = 2 powi e * of_int (n * 2 ^ k)" using \<open>x \<noteq> 0\<close> by (simp only: fl_def u if_False)
    then have "fl x = x" using xe by simp
    then show ?thesis using assms(1) by simp
  qed
qed

lemma fl_grid_ge:
  assumes "2 powi e \<le> \<bar>x\<bar>"
  shows "fl x / 2 powi (e - 52) \<in> \<int>"
proof -
  have ax: "0 < \<bar>x\<bar>" using assms two_powi_pos [of e] by linarith
  then have nz: "x \<noteq> 0" by simp
  have "\<not> expo \<bar>x\<bar> + 1 \<le> e"
  proof
    assume "expo \<bar>x\<bar> + 1 \<le> e"
    then have "(2::real) powi (expo \<bar>x\<bar> + 1) \<le> 2 powi e" by (intro power_int_increasing) simp_all
    then show False using expo_bounds(2) [OF ax] assms by linarith
  qed
  then have le: "e \<le> max (expo \<bar>x\<bar>) (- 1022)" by simp
  define d where "d = max (expo \<bar>x\<bar>) (- 1022) - 52"
  define k where "k = nat (d - (e - 52))"
  have u: "ulp x = 2 powi d" by (simp add: ulp_def d_def)
  have "(2::real) powi d = 2 powi (e - 52) * 2 ^ k"
    by (rule powi_shift) (use le in \<open>simp add: k_def d_def\<close>)
  then have "fl x / 2 powi (e - 52) = of_int (2 ^ k * rhe (x / ulp x))"
    using nz two_powi_pos [of "e - 52"] by (simp add: fl_def u)
  then show ?thesis by (simp only: Ints_of_int)
qed

subsection \<open>The denominator of \<^verbatim>\<open>contrast\<close> is never zero\<close>

text \<open>
  The brightness of an integer triple is never the double \<open>- c_k\<close>, the opposite of what
  \<^verbatim>\<open>0.05\<close> denotes: a rounded number is a multiple of its \<open>ulp\<close>, and the multiples that
  the three products and the two sums can be leave \<open>- c_k\<close> out, except for a few small
  triples that are excluded by their size.
\<close>

lemma lits:
  "fl 0.2126 = c_r" "fl 0.7152 = c_g" "fl 0.0722 = c_b" "fl 0.05 = c_k"
  using fl_eval [of "- 3" "0.2126"] fl_eval [of "- 1" "0.7152"] fl_eval [of "- 4" "0.0722"]
    fl_eval [of "- 5" "0.05"]
  by (simp_all add: rhe_def c_r_def c_g_def c_b_def c_k_def)

lemma fl_dyadic:
  assumes "\<bar>n\<bar> < 2 ^ 53" "k \<le> 1074"
  shows "fl (of_int n / 2 ^ k) = of_int n / 2 ^ k"
proof -
  have "(of_int n / 2 ^ k :: real) = of_int n * 2 powi (- int k)"
    by (simp add: power_int_minus field_simps)
  then show ?thesis using fl_repr [of "of_int n / 2 ^ k" n "- int k"] assms by simp
qed

lemma grid_0 [simp]: "grid j 0"
  by (simp add: grid_def)

lemma grid_minus [simp]: "grid j (- x) = grid j x"
  by (simp add: grid_def)

lemma grid_add: "grid j x \<Longrightarrow> grid j y \<Longrightarrow> grid j (x + y)"
  by (simp add: grid_def add_divide_distrib)

lemma grid_mono:
  assumes "j \<le> k" "grid k x"
  shows "grid j x"
proof -
  define d where "d = nat (k - j)"
  have "(2::real) powi k = 2 powi j * 2 ^ d"
    by (rule powi_shift) (use assms(1) in \<open>simp add: d_def\<close>)
  then have e: "x / 2 powi j = (x / 2 powi k) * of_int (2 ^ d)"
    using two_powi_pos [of j] by (simp add: field_simps)
  show ?thesis
    unfolding grid_def e using assms(2) [unfolded grid_def] by (intro Ints_mult Ints_of_int)
qed

lemma grid_fl: "grid j x \<Longrightarrow> - 1074 \<le> j \<Longrightarrow> grid j (fl x)"
  unfolding grid_def by (rule fl_grid)

lemma grid_fl_ge: "2 powi e \<le> \<bar>x\<bar> \<Longrightarrow> grid (e - 52) (fl x)"
  unfolding grid_def by (rule fl_grid_ge)

lemma grid_repr:
  assumes "grid j x" "\<bar>x\<bar> < 2 powi (j + 53)" "- 1074 \<le> j"
  shows "fl x = x"
proof -
  obtain n :: int where n: "x / 2 powi j = of_int n"
    using assms(1) by (auto simp: grid_def elim: Ints_cases)
  then have x: "x = of_int n * 2 powi j" using two_powi_pos [of j] by (simp add: field_simps)
  have p: "(2::real) powi (j + 53) = 2 powi j * 2 ^ 53" by (rule powi_shift) simp
  have "\<bar>real_of_int n\<bar> * 2 powi j < 2 ^ 53 * 2 powi j"
    using assms(2) two_powi_pos [of j] by (simp add: x abs_mult p mult.commute)
  then have "\<bar>real_of_int n\<bar> < 2 ^ 53" using two_powi_pos [of j] by simp
  then have "real_of_int \<bar>n\<bar> < real_of_int (2 ^ 53)" by simp
  then have "\<bar>n\<bar> < 2 ^ 53" by (simp only: of_int_less_iff)
  then show ?thesis by (rule fl_repr [OF x _ assms(3)])
qed

lemma not_grid:
  assumes "\<not> d dvd n" "d \<noteq> 0"
  shows "real_of_int n / real_of_int d \<notin> \<int>"
proof
  assume "real_of_int n / real_of_int d \<in> \<int>"
  then obtain m :: int where "real_of_int n / real_of_int d = of_int m" by (auto elim: Ints_cases)
  then have "real_of_int n = of_int (m * d)" using assms(2) by (simp add: field_simps)
  then have "n = m * d" by (simp only: of_int_eq_iff)
  then show False using assms(1) by simp
qed

lemma fl_abs_ge:
  assumes "m = of_int n * 2 powi j" "\<bar>n\<bar> < 2 ^ 53" "- 1074 \<le> j" "m \<le> \<bar>x\<bar>"
  shows "m \<le> \<bar>fl x\<bar>"
proof (cases "0 \<le> x")
  case True
  then have "fl m \<le> fl x" using assms(4) by (intro fl_mono) simp
  then show ?thesis using fl_repr [OF assms(1-3)] fl_nonneg [OF True] by simp
next
  case False
  then have "fl m \<le> fl (- x)" using assms(4) by (intro fl_mono) simp
  moreover have "fl x \<le> 0" using fl_nonneg [of "- x"] False by (simp add: fl_minus)
  ultimately show ?thesis using fl_repr [OF assms(1-3)] by (simp add: fl_minus)
qed

lemma fl_abs_le:
  assumes "m = of_int n * 2 powi j" "\<bar>n\<bar> < 2 ^ 53" "- 1074 \<le> j" "\<bar>x\<bar> \<le> m"
  shows "\<bar>fl x\<bar> \<le> m"
proof -
  have "x \<le> m" "- m \<le> x" using assms(4) by linarith+
  then have "fl x \<le> fl m" "fl (- m) \<le> fl x" by (simp_all add: fl_mono)
  then show ?thesis using fl_repr [OF assms(1-3)] by (simp add: fl_minus abs_le_iff)
qed

lemma fl_error_le:
  assumes "\<bar>x\<bar> < 2 powi (e + 1)" "- 1022 \<le> e"
  shows "\<bar>fl x - x\<bar> \<le> 2 powi (e - 53)"
proof (cases "x = 0")
  case True
  then show ?thesis using two_powi_pos [of "e - 53"] by simp
next
  case False
  then have ax: "0 < \<bar>x\<bar>" by simp
  have "\<not> e + 1 \<le> expo \<bar>x\<bar>"
  proof
    assume "e + 1 \<le> expo \<bar>x\<bar>"
    then have "(2::real) powi (e + 1) \<le> 2 powi expo \<bar>x\<bar>" by (intro power_int_increasing) simp_all
    then show False using expo_bounds(1) [OF ax] assms(1) by linarith
  qed
  then have "max (expo \<bar>x\<bar>) (- 1022) - 52 \<le> e - 52" using assms(2) by simp
  then have "ulp x \<le> 2 powi (e - 52)" unfolding ulp_def by (intro power_int_increasing) simp_all
  moreover have "(2::real) powi (e - 52) = 2 powi (e - 53) * 2 ^ 1" by (rule powi_shift) simp
  ultimately show ?thesis using fl_error [of x] by simp
qed

lemma scale_ge:
  fixes c :: real and n k :: int
  assumes "0 < c" "k \<le> \<bar>n\<bar>" "m \<le> c * of_int k"
  shows "m \<le> \<bar>c * of_int n\<bar>"
proof -
  have "real_of_int k \<le> real_of_int \<bar>n\<bar>" using assms(2) by (simp only: of_int_le_iff)
  then have "c * of_int k \<le> c * \<bar>of_int n\<bar>" using assms(1) by (intro mult_left_mono) simp_all
  moreover have "\<bar>c * of_int n\<bar> = c * \<bar>of_int n\<bar>" using assms(1) by (simp add: abs_mult)
  ultimately show ?thesis using assms(3) by linarith
qed

lemma scale_le:
  fixes c :: real and n k :: int
  assumes "0 < c" "\<bar>n\<bar> \<le> k" "c * of_int k \<le> m"
  shows "\<bar>c * of_int n\<bar> \<le> m"
proof -
  have "real_of_int \<bar>n\<bar> \<le> real_of_int k" using assms(2) by (simp only: of_int_le_iff)
  then have "c * \<bar>of_int n\<bar> \<le> c * of_int k" using assms(1) by (intro mult_left_mono) simp_all
  moreover have "\<bar>c * of_int n\<bar> = c * \<bar>of_int n\<bar>" using assms(1) by (simp add: abs_mult)
  ultimately show ?thesis using assms(3) by linarith
qed

lemma no_small_solution:
  fixes r g :: int
  assumes "g \<noteq> 0" "\<bar>g\<bar> \<le> 5"
    and "\<bar>1914930561557935 * r + 6441948906990757 * g - 199959823455250\<bar> \<le> 8"
  shows False
proof -
  have "g = - 5 \<or> g = - 4 \<or> g = - 3 \<or> g = - 2 \<or> g = - 1 \<or> g = 1 \<or> g = 2 \<or> g = 3 \<or>
      g = 4 \<or> g = 5"
    using assms(1,2) by presburger
  moreover
  have "g = - 5 \<Longrightarrow> False"
  proof -
    assume g: "g = - 5"
    have "r \<le> 16 \<or> 17 \<le> r" by linarith
    then show False using assms(3) unfolding g by (elim disjE) linarith+
  qed
  moreover
  have "g = - 4 \<Longrightarrow> False"
  proof -
    assume g: "g = - 4"
    have "r \<le> 13 \<or> 14 \<le> r" by linarith
    then show False using assms(3) unfolding g by (elim disjE) linarith+
  qed
  moreover
  have "g = - 3 \<Longrightarrow> False"
  proof -
    assume g: "g = - 3"
    have "r \<le> 10 \<or> 11 \<le> r" by linarith
    then show False using assms(3) unfolding g by (elim disjE) linarith+
  qed
  moreover
  have "g = - 2 \<Longrightarrow> False"
  proof -
    assume g: "g = - 2"
    have "r \<le> 6 \<or> 7 \<le> r" by linarith
    then show False using assms(3) unfolding g by (elim disjE) linarith+
  qed
  moreover
  have "g = - 1 \<Longrightarrow> False"
  proof -
    assume g: "g = - 1"
    have "r \<le> 3 \<or> 4 \<le> r" by linarith
    then show False using assms(3) unfolding g by (elim disjE) linarith+
  qed
  moreover
  have "g = 1 \<Longrightarrow> False"
  proof -
    assume g: "g = 1"
    have "r \<le> - 4 \<or> - 3 \<le> r" by linarith
    then show False using assms(3) unfolding g by (elim disjE) linarith+
  qed
  moreover
  have "g = 2 \<Longrightarrow> False"
  proof -
    assume g: "g = 2"
    have "r \<le> - 7 \<or> - 6 \<le> r" by linarith
    then show False using assms(3) unfolding g by (elim disjE) linarith+
  qed
  moreover
  have "g = 3 \<Longrightarrow> False"
  proof -
    assume g: "g = 3"
    have "r \<le> - 10 \<or> - 9 \<le> r" by linarith
    then show False using assms(3) unfolding g by (elim disjE) linarith+
  qed
  moreover
  have "g = 4 \<Longrightarrow> False"
  proof -
    assume g: "g = 4"
    have "r \<le> - 14 \<or> - 13 \<le> r" by linarith
    then show False using assms(3) unfolding g by (elim disjE) linarith+
  qed
  moreover
  have "g = 5 \<Longrightarrow> False"
  proof -
    assume g: "g = 5"
    have "r \<le> - 17 \<or> - 16 \<le> r" by linarith
    then show False using assms(3) unfolding g by (elim disjE) linarith+
  qed
  ultimately show False by blast
qed

lemma term_r:
  "grid (- 54) (fl (c_r * of_int r))"
proof -
  consider "r = 0" | "r = 1" | "r = - 1" | "2 \<le> \<bar>r\<bar>" by linarith
  then show ?thesis
  proof cases
    case 1
    then show ?thesis by simp
  next
    case 2
    have "fl c_r = c_r" unfolding c_r_def using fl_dyadic [of 1914930561557935 53] by simp
    moreover have "grid (- 54) c_r" by (simp add: grid_def c_r_def)
    ultimately show ?thesis using 2 by simp
  next
    case 3
    have "fl c_r = c_r" unfolding c_r_def using fl_dyadic [of 1914930561557935 53] by simp
    moreover have "grid (- 54) c_r" by (simp add: grid_def c_r_def)
    ultimately show ?thesis using 3 by (simp add: fl_minus)
  next
    case 4
    have "2 powi (- 2) \<le> \<bar>c_r * of_int r\<bar>"
      by (rule scale_ge [OF _ 4]) (simp_all add: c_r_def)
    then have "grid (- 2 - 52) (fl (c_r * of_int r))" by (rule grid_fl_ge)
    then show ?thesis by simp
  qed
qed

lemma term_g:
  "grid (- 53) (fl (c_g * of_int g))"
proof (cases "g = 0")
  case True
  then show ?thesis by simp
next
  case False
  then have "1 \<le> \<bar>g\<bar>" by linarith
  have "2 powi (- 1) \<le> \<bar>c_g * of_int g\<bar>"
    by (rule scale_ge [OF _ \<open>1 \<le> \<bar>g\<bar>\<close>]) (simp_all add: c_g_def)
  then have "grid (- 1 - 52) (fl (c_g * of_int g))" by (rule grid_fl_ge)
  then show ?thesis by simp
qed

lemma term_b:
  assumes "b \<noteq> 1" "b \<noteq> - 1"
  shows "grid (- 55) (fl (c_b * of_int b))"
proof (cases "b = 0")
  case True
  then show ?thesis by simp
next
  case False
  then have b: "2 \<le> \<bar>b\<bar>" using assms by linarith
  have "2 powi (- 3) \<le> \<bar>c_b * of_int b\<bar>"
    by (rule scale_ge [OF _ b]) (simp_all add: c_b_def)
  then have "grid (- 3 - 52) (fl (c_b * of_int b))" by (rule grid_fl_ge)
  then show ?thesis by simp
qed

lemma fl_small_exact:
  assumes "fl x = y" "grid j x" "\<bar>y\<bar> < m" "m = 2 powi e" "e \<le> j + 53" "- 1074 \<le> j" "- 1074 \<le> e"
  shows "x = y"
proof -
  have "\<not> m \<le> \<bar>x\<bar>"
  proof
    assume "m \<le> \<bar>x\<bar>"
    then have "m \<le> \<bar>fl x\<bar>" using fl_abs_ge [of m 1 e x] assms(4,7) by simp
    then show False using assms(1,3) by simp
  qed
  then have "\<bar>x\<bar> < 2 powi e" using assms(4) by simp
  also have "\<dots> \<le> 2 powi (j + 53)" using assms(5) by (intro power_int_increasing) simp_all
  finally have "fl x = x" by (rule grid_repr [OF assms(2) _ assms(6)])
  then show ?thesis using assms(1) by simp
qed

lemma lum_ne:
  fixes r g b :: int
  shows "fl (fl (fl (c_r * of_int r) + fl (c_g * of_int g)) + fl (c_b * of_int b)) \<noteq> - c_k"
proof
  define t1 where "t1 = fl (c_r * of_int r)"
  define t2 where "t2 = fl (c_g * of_int g)"
  define A where "A = fl (t1 + t2)"
  assume "fl (fl (fl (c_r * of_int r) + fl (c_g * of_int g)) + fl (c_b * of_int b)) = - c_k"
  then have L: "fl (A + fl (c_b * of_int b)) = - c_k" by (simp add: t1_def t2_def A_def)
  have g1: "grid (- 54) t1" unfolding t1_def by (rule term_r)
  have g2: "grid (- 53) t2" unfolding t2_def by (rule term_g)
  have g12: "grid (- 54) (t1 + t2)" by (intro grid_add g1 grid_mono [OF _ g2]) simp
  have gA: "grid (- 54) A" unfolding A_def by (rule grid_fl [OF g12]) simp
  have flb: "fl c_b = c_b" unfolding c_b_def using fl_dyadic [of 5202558289538397 56] by simp
  have gb: "grid (- 56) c_b" by (simp add: grid_def c_b_def)
  consider "b \<noteq> 1" "b \<noteq> - 1" | "b = 1" | "b = - 1" by blast
  then show False
  proof cases
    case 1
    have "grid (- 55) (A + fl (c_b * of_int b))"
      by (intro grid_add grid_mono [OF _ gA] term_b 1) simp
    then have "grid (- 55) (fl (A + fl (c_b * of_int b)))" by (rule grid_fl) simp
    then have "grid (- 55) c_k" by (simp add: L)
    then show False using not_grid [of 2 3602879701896397] by (simp add: grid_def c_k_def)
  next
    case 2
    then have L2: "fl (A + c_b) = - c_k" using L by (simp add: flb)
    have "grid (- 56) (A + c_b)" by (intro grid_add grid_mono [OF _ gA] gb) simp
    then have "A + c_b = - c_k"
      by (rule fl_small_exact [OF L2, where m = "1 / 16" and e = "- 4"]) (simp_all add: c_k_def)
    then have "A = - 8805437991434794 / 2 ^ 56" by (simp add: c_k_def c_b_def)
    then show False using gA not_grid [of 4 "- 8805437991434794"] by (simp add: grid_def)
  next
    case 3
    then have L3: "fl (A - c_b) = - c_k" using L by (simp add: flb fl_minus)
    have "grid (- 56) (A + - c_b)" by (intro grid_add grid_mono [OF _ gA]) (simp_all add: gb)
    then have "grid (- 56) (A - c_b)" by simp
    then have "A - c_b = - c_k"
      by (rule fl_small_exact [OF L3, where m = "1 / 16" and e = "- 4"]) (simp_all add: c_k_def)
    then have A: "A = 199959823455250 / 2 ^ 53" by (simp add: c_k_def c_b_def)
    have "fl (t1 + t2) = 199959823455250 / 2 ^ 53" using A by (simp add: A_def)
    then have s: "t1 + t2 = 199959823455250 / 2 ^ 53"
      by (rule fl_small_exact [OF _ g12, where m = "1 / 32" and e = "- 5"]) simp_all
    have ng: "\<not> grid (- 50) (199959823455250 / 2 ^ 53)"
      using not_grid [of 8 199959823455250] by (simp add: grid_def)
    show False
    proof (cases "g = 0")
      case True
      then have t: "t1 = 199959823455250 / 2 ^ 53" using s by (simp add: t2_def)
      show False
      proof (cases "r = 0")
        case True
        then show False using t by (simp add: t1_def)
      next
        case False
        then have r1: "1 \<le> \<bar>r\<bar>" by linarith
        have "1 / 8 \<le> \<bar>c_r * of_int r\<bar>" by (rule scale_ge [OF _ r1]) (simp_all add: c_r_def)
        then have "1 / 8 \<le> \<bar>t1\<bar>" unfolding t1_def using fl_abs_ge [of "1 / 8" 1 "- 3"] by simp
        then show False using t by simp
      qed
    next
      case False
      then have g1': "1 \<le> \<bar>g\<bar>" by linarith
      have "1 / 2 \<le> \<bar>c_g * of_int g\<bar>" by (rule scale_ge [OF _ g1']) (simp_all add: c_g_def)
      then have t2lo: "1 / 2 \<le> \<bar>t2\<bar>" unfolding t2_def using fl_abs_ge [of "1 / 2" 1 "- 1"] by simp
      show False
      proof (cases "6 \<le> \<bar>g\<bar>")
        case True
        have big: "17 / 4 \<le> \<bar>c_g * of_int g\<bar>" by (rule scale_ge [OF _ True]) (simp_all add: c_g_def)
        then have "17 / 4 \<le> \<bar>t2\<bar>" unfolding t2_def using fl_abs_ge [of "17 / 4" 17 "- 2"] by simp
        then have t1big: "4 < \<bar>t1\<bar>" using s by (simp add: abs_if split: if_splits)
        have "2 powi 2 \<le> \<bar>c_g * of_int g\<bar>" using big by simp
        then have "grid (2 - 52) t2" unfolding t2_def by (rule grid_fl_ge)
        moreover have "grid (2 - 52) t1"
        proof -
          have "\<not> \<bar>c_r * of_int r\<bar> \<le> 4"
          proof
            assume "\<bar>c_r * of_int r\<bar> \<le> 4"
            then have "\<bar>t1\<bar> \<le> 4" unfolding t1_def using fl_abs_le [of 4 4 0] by simp
            then show False using t1big by simp
          qed
          then have "2 powi 2 \<le> \<bar>c_r * of_int r\<bar>" by simp
          then show ?thesis unfolding t1_def by (rule grid_fl_ge)
        qed
        ultimately have "grid (- 50) (t1 + t2)" using grid_add [of "- 50" t1 t2] by simp
        then show False using ng s by simp
      next
        case False
        then have g5: "\<bar>g\<bar> \<le> 5" by linarith
        have a2: "\<bar>c_g * of_int g\<bar> \<le> 29 / 8" by (rule scale_le [OF _ g5]) (simp_all add: c_g_def)
        then have e2: "\<bar>t2 - c_g * of_int g\<bar> \<le> 2 powi (1 - 53)"
          unfolding t2_def by (intro fl_error_le) simp_all
        have "\<bar>t2\<bar> \<le> 29 / 8" unfolding t2_def using a2 fl_abs_le [of "29 / 8" 29 "- 3"] by simp
        then have t1s: "\<bar>t1\<bar> < 4" using s by (simp add: abs_if split: if_splits)
        have "\<not> 4 \<le> \<bar>c_r * of_int r\<bar>"
        proof
          assume "4 \<le> \<bar>c_r * of_int r\<bar>"
          then have "4 \<le> \<bar>t1\<bar>" unfolding t1_def using fl_abs_ge [of 4 4 0] by simp
          then show False using t1s by simp
        qed
        then have "\<bar>c_r * of_int r\<bar> < 2 powi (1 + 1)" by simp
        then have e1: "\<bar>t1 - c_r * of_int r\<bar> \<le> 2 powi (1 - 53)"
          unfolding t1_def by (intro fl_error_le) simp_all
        have "\<bar>c_r * of_int r + c_g * of_int g - 199959823455250 / 2 ^ 53\<bar> \<le> 2 * 2 powi (1 - 53)"
          using e1 e2 s by (simp add: abs_if split: if_splits)
        then have "\<bar>c_r * of_int r + c_g * of_int g - 199959823455250 / 2 ^ 53\<bar> * 2 ^ 53 \<le>
            2 * 2 powi (1 - 53) * 2 ^ 53"
          by (intro mult_right_mono) simp_all
        then have "\<bar>real_of_int (1914930561557935 * r + 6441948906990757 * g - 199959823455250)\<bar> \<le> 8"
          by (simp add: c_r_def c_g_def abs_mult [symmetric] field_simps del: abs_mult)
        then have "real_of_int \<bar>1914930561557935 * r + 6441948906990757 * g - 199959823455250\<bar> \<le> real_of_int 8"
          by simp
        then have "\<bar>1914930561557935 * r + 6441948906990757 * g - 199959823455250\<bar> \<le> 8"
          by (simp only: of_int_le_iff)
        then show False by (rule no_small_solution [OF \<open>g \<noteq> 0\<close> g5])
      qed
    qed
  qed
qed

lemma den_ne:
  fixes r g b :: int
  shows "fl (fl (fl (fl (c_r * of_int r) + fl (c_g * of_int g)) + fl (c_b * of_int b)) + c_k) \<noteq> 0"
proof
  define L where "L = fl (fl (fl (c_r * of_int r) + fl (c_g * of_int g)) + fl (c_b * of_int b))"
  assume "fl (fl (fl (fl (c_r * of_int r) + fl (c_g * of_int g)) + fl (c_b * of_int b)) + c_k) = 0"
  then have z: "fl (L + c_k) = 0" by (simp add: L_def)
  have gA: "grid (- 54) (fl (fl (c_r * of_int r) + fl (c_g * of_int g)))"
    by (intro grid_fl grid_add term_r grid_mono [OF _ term_g]) simp_all
  have gB: "grid (- 56) (fl (c_b * of_int b))"
  proof (cases "b = 1 \<or> b = - 1")
    case True
    have "fl c_b = c_b" unfolding c_b_def using fl_dyadic [of 5202558289538397 56] by simp
    moreover have "grid (- 56) c_b" by (simp add: grid_def c_b_def)
    ultimately show ?thesis using True by (auto simp: fl_minus)
  next
    case False
    then show ?thesis by (intro grid_mono [OF _ term_b]) simp_all
  qed
  have "grid (- 56) (fl (fl (c_r * of_int r) + fl (c_g * of_int g)) + fl (c_b * of_int b))"
    by (rule grid_add [OF grid_mono [OF _ gA] gB]) simp
  then have "grid (- 56) L" unfolding L_def by (rule grid_fl) simp
  moreover have "grid (- 56) c_k" by (simp add: grid_def c_k_def)
  ultimately have "grid (- 56) (L + c_k)" by (rule grid_add)
  then have "L + c_k = 0"
    by (rule fl_small_exact [OF z, where m = "1 / 8" and e = "- 3"]) simp_all
  then have "L = - c_k" by linarith
  then show False using lum_ne [of r g b] unfolding L_def by blast
qed

section \<open>Bytes and their two hex digits\<close>

lemma hexDigitOf_props:
  assumes "d < 16"
  shows "isHexDigit (hexDigitOf d)" "\<not> nonHexLetter (hexDigitOf d)" "hexDigitOf d \<noteq> CHR ''#''"
    "hexValue (hexDigitOf d) = int d"
proof -
  have c: "code (hexDigitOf d) = (if d < 10 then 48 + d else 87 + d)"
    using assms by (simp add: hexDigitOf_def code_char_of)
  show "isHexDigit (hexDigitOf d)" using assms by (simp add: isHexDigit_def isDigit_def c)
  show "\<not> nonHexLetter (hexDigitOf d)" using assms by (simp add: nonHexLetter_def c)
  have "code (hexDigitOf d) \<noteq> code CHR ''#''" using assms by (simp add: c) (simp add: code_def)
  then show "hexDigitOf d \<noteq> CHR ''#''" by auto
  show "hexValue (hexDigitOf d) = int d" using assms by (simp add: hexValue_def isDigit_def c)
qed

lemma byte_pair:
  assumes "0 \<le> n" "n \<le> 255"
  shows "\<exists>a b. padStart (toString16 n) 2 CHR ''0'' = [a, b] \<and> isHexDigit a \<and> isHexDigit b \<and>
           \<not> nonHexLetter a \<and> \<not> nonHexLetter b \<and> a \<noteq> CHR ''#'' \<and> parseInt16 [a, b] = Some n"
proof -
  define x y where "x = nat n div 16" and "y = nat n mod 16"
  have xy: "x < 16" "y < 16" "nat n = 16 * x + y" using assms unfolding x_def y_def by auto
  have p: "padStart (toString16 n) 2 CHR ''0'' = [hexDigitOf x, hexDigitOf y]"
    using assms hexDigits_two [OF xy(1) xy(2)] by (simp add: toString16_def xy(3))
  have "parseInt16 [hexDigitOf x, hexDigitOf y] = Some (16 * int x + int y)"
    using parseInt16_pair [OF hexDigitOf_props(1) [OF xy(1)] hexDigitOf_props(1) [OF xy(2)]]
    by (simp add: hexDigitOf_props(4) xy)
  moreover have "16 * int x + int y = n" using xy(3) assms by linarith
  ultimately show ?thesis
    using p hexDigitOf_props [OF xy(1)] hexDigitOf_props [OF xy(2)] by simp
qed

lemma channel_roundtrip:
  assumes "0 \<le> n" "n \<le> 255"
  shows "\<exists>a b. padStart (toString16 n) 2 CHR ''0'' = [a, b] \<and> parseInt16 [a, b] = Some n \<and> a \<noteq> CHR ''#''"
  using byte_pair [OF assms] by blast

lemma hexToRgb_rgbToHex:
  assumes "0 \<le> rgb_r v" "rgb_r v \<le> 255" "0 \<le> rgb_g v" "rgb_g v \<le> 255" "0 \<le> rgb_b v" "rgb_b v \<le> 255"
  shows "hexToRgb (rgbToHex v) = Some v"
proof -
  obtain a b where r: "padStart (toString16 (rgb_r v)) 2 CHR ''0'' = [a, b]" "parseInt16 [a, b] = Some (rgb_r v)"
      "a \<noteq> CHR ''#''"
    using channel_roundtrip [OF assms(1,2)] by blast
  obtain c d where g: "padStart (toString16 (rgb_g v)) 2 CHR ''0'' = [c, d]" "parseInt16 [c, d] = Some (rgb_g v)"
    using channel_roundtrip [OF assms(3,4)] by blast
  obtain e f where b: "padStart (toString16 (rgb_b v)) 2 CHR ''0'' = [e, f]" "parseInt16 [e, f] = Some (rgb_b v)"
    using channel_roundtrip [OF assms(5,6)] by blast
  have h: "rgbToHex v = [a, b, c, d, e, f]" by (simp add: rgbToHex_def r g b)
  show ?thesis
    using r(3) by (simp add: h hexToRgb_def charAt_def Let_def substring_6 r g b)
qed

lemma hex6_bytes:
  assumes "length H = 6" "list_all isHexDigit H"
  shows "\<exists>r g b. parseInt16 (substring H 0 2) = Some r \<and> parseInt16 (substring H 2 4) = Some g \<and>
           parseInt16 (substring H 4 6) = Some b \<and> 0 \<le> r \<and> r \<le> 255 \<and> 0 \<le> g \<and> g \<le> 255 \<and>
           0 \<le> b \<and> b \<le> 255"
proof -
  from assms(1) obtain a b c d e f where H: "H = [a, b, c, d, e, f]"
    by (auto simp: length_Suc_conv eval_nat_numeral)
  have hd: "isHexDigit a" "isHexDigit b" "isHexDigit c" "isHexDigit d" "isHexDigit e" "isHexDigit f"
    using assms(2) by (simp_all add: H)
  show ?thesis
    using pair_roundtrip [OF hd(1) hd(2)] pair_roundtrip [OF hd(3) hd(4)] pair_roundtrip [OF hd(5) hd(6)]
    by (auto simp: H substring_6)
qed

lemma blend_range:
  fixes w :: real
  assumes "0 \<le> a" "a \<le> 255" "0 \<le> b" "b \<le> 255" "0 \<le> w" "w \<le> 100"
  shows "0 \<le> \<lfloor>dadd (real_of_int b) (dmul (dsub (real_of_int a) (real_of_int b)) (ddiv w 100))\<rfloor>"
    and "\<lfloor>dadd (real_of_int b) (dmul (dsub (real_of_int a) (real_of_int b)) (ddiv w 100))\<rfloor> \<le> 255"
proof -
  define t where "t = ddiv w 100"
  define p where "p = dmul (real_of_int (a - b)) t"
  define s where "s = dadd (real_of_int b) p"
  have "real_of_int 0 \<le> w / 100" "w / 100 \<le> real_of_int 1" using assms(5,6) by simp_all
  then have t: "0 \<le> t" "t \<le> 1" using fl_between [of 0 "w / 100" 1] by (simp_all add: t_def ddiv_def)
  have d: "dsub (real_of_int a) (real_of_int b) = real_of_int (a - b)"
    using fl_of_int [of "a - b"] assms(1-4) by (simp add: dsub_def)
  have m: "\<bar>min a b\<bar> < 2 ^ 53" "\<bar>max a b\<bar> < 2 ^ 53" "\<bar>min 0 (a - b)\<bar> < 2 ^ 53" "\<bar>max 0 (a - b)\<bar> < 2 ^ 53"
    using assms(1-4) by simp_all
  have "real_of_int (min 0 (a - b)) \<le> real_of_int (a - b) * t \<and>
        real_of_int (a - b) * t \<le> real_of_int (max 0 (a - b))"
  proof (cases "b \<le> a")
    case True
    then have n: "0 \<le> real_of_int (a - b)" by simp
    have "0 \<le> real_of_int (a - b) * t" by (rule mult_nonneg_nonneg [OF n t(1)])
    moreover have "real_of_int (a - b) * t \<le> real_of_int (a - b) * 1"
      by (rule mult_left_mono [OF t(2) n])
    ultimately show ?thesis using True by (simp add: min_def max_def)
  next
    case False
    then have n: "real_of_int (a - b) \<le> 0" by simp
    have "real_of_int (a - b) * t \<le> 0" by (rule mult_nonpos_nonneg [OF n t(1)])
    moreover have "real_of_int (a - b) * 1 \<le> real_of_int (a - b) * t"
      by (rule mult_left_mono_neg [OF t(2) n])
    ultimately show ?thesis using False by (simp add: min_def max_def)
  qed
  then have "real_of_int (min 0 (a - b)) \<le> p \<and> p \<le> real_of_int (max 0 (a - b))"
    unfolding p_def dmul_def by (intro fl_between m) simp_all
  then have "real_of_int (min a b) \<le> real_of_int b + p \<and> real_of_int b + p \<le> real_of_int (max a b)"
    by (cases "b \<le> a") (simp_all add: min_def max_def)
  then have "real_of_int (min a b) \<le> s \<and> s \<le> real_of_int (max a b)"
    unfolding s_def dadd_def by (intro fl_between m) simp_all
  moreover have "0 \<le> real_of_int (min a b)" "real_of_int (max a b) \<le> 255"
    using assms(1-4) by (simp_all add: min_def max_def)
  ultimately have s: "0 \<le> s" "s \<le> 255" by linarith+
  show "0 \<le> \<lfloor>dadd (real_of_int b) (dmul (dsub (real_of_int a) (real_of_int b)) (ddiv w 100))\<rfloor>"
    using s(1) unfolding s_def p_def t_def d by simp
  show "\<lfloor>dadd (real_of_int b) (dmul (dsub (real_of_int a) (real_of_int b)) (ddiv w 100))\<rfloor> \<le> 255"
    using s(2) unfolding s_def p_def t_def d by (simp add: floor_le_iff)
qed

lemma upd_nth: "(xs[c := y]) ! d = (if d = c \<and> c < length xs then y else xs ! d)"
  by (cases "c < length xs") (auto simp: nth_list_update list_update_beyond)

section \<open>The getter \<^verbatim>\<open>hex\<close>\<close>

lemma get_hex_cases:
  assumes "c < length (colors \<sigma>)"
  shows "get_hex c \<sigma> =
     (case hexView (colors \<sigma> ! c) (hsls \<sigma>) of
        Inl e \<Rightarrow> Inl e
      | Inr h \<Rightarrow> Inr (h, fill_hex c \<sigma>))"
proof (cases "truthy (hexContainer (colors \<sigma> ! c))")
  case True
  then show ?thesis by (simp add: get_hex_cached hexView_def fill_hex_def)
next
  case False
  then show ?thesis
    using assms
    by (auto simp: get_hex_fill hexView_def rgbView_def fill_hex_def split: option.splits)
qed

lemma fill_hex_props:
  "length (colors (fill_hex c \<sigma>)) = length (colors \<sigma>)"
  "hsls (fill_hex c \<sigma>) = hsls \<sigma>"
  "alpha (colors (fill_hex c \<sigma>) ! d) = alpha (colors \<sigma> ! d)"
  "hslContainer (colors (fill_hex c \<sigma>) ! d) = hslContainer (colors \<sigma> ! d)"
  by (auto simp: fill_hex_def upd_nth split: sum.splits)

lemma fill_hex_other:
  assumes "d \<noteq> c \<or> \<not> c < length (colors \<sigma>) \<or> truthy (hexContainer (colors \<sigma> ! c))"
  shows "colors (fill_hex c \<sigma>) ! d = colors \<sigma> ! d"
  using assms by (auto simp: fill_hex_def upd_nth split: sum.splits)

lemma fill_hex_hexView:
  "hexView (colors (fill_hex c \<sigma>) ! d) (hsls (fill_hex c \<sigma>)) = hexView (colors \<sigma> ! d) (hsls \<sigma>)"
proof (cases "d \<noteq> c \<or> \<not> c < length (colors \<sigma>) \<or> truthy (hexContainer (colors \<sigma> ! c))")
  case True
  then show ?thesis by (simp add: fill_hex_other fill_hex_props)
next
  case False
  then have f: "\<not> truthy (hexContainer (colors \<sigma> ! c))" "d = c" "c < length (colors \<sigma>)" by auto
  show ?thesis
  proof (cases "rgbView (colors \<sigma> ! c) (hsls \<sigma>)")
    case (Inl e)
    then show ?thesis by (simp add: fill_hex_def f)
  next
    case (Inr v)
    then have "hexView (colors \<sigma> ! c) (hsls \<sigma>) = Inr (rgbToHex v)"
      using f(1) by (auto simp: hexView_def rgbView_def split: option.splits)
    then show ?thesis using Inr f by (simp add: fill_hex_def hexView_def)
  qed
qed

lemma hexDigits_nonempty: "1 \<le> length (hexDigits n)"
  by (subst hexDigits.simps) simp

lemma hexDigits_long:
  assumes "256 \<le> n"
  shows "3 \<le> length (hexDigits n)"
proof -
  have "16 \<le> n div 16" using assms by simp
  then have "hexDigits (n div 16) = hexDigits (n div 16 div 16) @ [hexDigitOf (n div 16 mod 16)]"
    by (subst hexDigits.simps) simp
  moreover have "hexDigits n = hexDigits (n div 16) @ [hexDigitOf (n mod 16)]"
    using assms by (subst hexDigits.simps) simp
  ultimately show ?thesis using hexDigits_nonempty [of "n div 16 div 16"] by simp
qed

lemma channel_of_pair:
  assumes "length (padStart (toString16 x) 2 CHR ''0'') = 2"
    and "list_all isHexDigit (padStart (toString16 x) 2 CHR ''0'')"
  shows "0 \<le> x \<and> x \<le> 255"
proof -
  have "\<not> x < 0"
  proof
    assume n: "x < 0"
    then have "padStart (toString16 x) 2 CHR ''0'' = ''-'' @ hexDigits (nat (- x))"
      using hexDigits_nonempty [of "nat (- x)"] by (simp add: padStart_def toString16_def)
    then have "isHexDigit CHR ''-''" using assms(2) by simp
    then show False by (simp add: isHexDigit_def isDigit_def code_def)
  qed
  moreover have "\<not> 256 \<le> x"
  proof
    assume b: "256 \<le> x"
    then have "3 \<le> length (hexDigits (nat x))" by (intro hexDigits_long) simp
    then show False using assms(1) b by (simp add: padStart_def toString16_def)
  qed
  ultimately show ?thesis by simp
qed

lemma hex6_rgbToHex:
  assumes "hex6 (rgbToHex v)"
  shows "0 \<le> rgb_r v \<and> rgb_r v \<le> 255 \<and> 0 \<le> rgb_g v \<and> rgb_g v \<le> 255 \<and> 0 \<le> rgb_b v \<and> rgb_b v \<le> 255"
proof -
  let ?r = "padStart (toString16 (rgb_r v)) 2 CHR ''0''"
  let ?g = "padStart (toString16 (rgb_g v)) 2 CHR ''0''"
  let ?b = "padStart (toString16 (rgb_b v)) 2 CHR ''0''"
  have len: "2 \<le> length ?r" "2 \<le> length ?g" "2 \<le> length ?b" by (simp_all add: padStart_def)
  have "length ?r + length ?g + length ?b = 6" using assms by (simp add: hex6_def rgbToHex_def)
  then have l2: "length ?r = 2" "length ?g = 2" "length ?b = 2" using len by linarith+
  have a: "list_all isHexDigit ?r" "list_all isHexDigit ?g" "list_all isHexDigit ?b"
    using assms by (simp_all add: hex6_def rgbToHex_def)
  show ?thesis
    using channel_of_pair [OF l2(1) a(1)] channel_of_pair [OF l2(2) a(2)]
      channel_of_pair [OF l2(3) a(3)] by simp
qed

lemma hex6_rgb_ok:
  assumes "hexView obj hs = Inr h" "hex6 h"
  shows "truthy (hexContainer obj) \<or> rgb_ok obj"
proof (cases "truthy (hexContainer obj)")
  case True
  then show ?thesis by simp
next
  case False
  show ?thesis
  proof (cases "rgbContainer obj")
    case None
    then show ?thesis by (simp add: rgb_ok_def)
  next
    case (Some v)
    then have "h = rgbToHex v" using assms(1) False by (simp add: hexView_def)
    then show ?thesis using hex6_rgbToHex [of v] assms(2) Some by (simp add: rgb_ok_def)
  qed
qed

lemma fill_hex_views:
  assumes "truthy (hexContainer (colors \<sigma> ! c)) \<or> rgb_ok (colors \<sigma> ! c)"
  shows "views (colors (fill_hex c \<sigma>) ! d) (hsls (fill_hex c \<sigma>)) = views (colors \<sigma> ! d) (hsls \<sigma>)"
proof (cases "d \<noteq> c \<or> \<not> c < length (colors \<sigma>) \<or> truthy (hexContainer (colors \<sigma> ! c))")
  case True
  then show ?thesis by (simp add: fill_hex_other fill_hex_props)
next
  case False
  then have f: "\<not> truthy (hexContainer (colors \<sigma> ! c))" "d = c" "c < length (colors \<sigma>)" by auto
  show ?thesis
  proof (cases "rgbView (colors \<sigma> ! c) (hsls \<sigma>)")
    case (Inl e)
    then show ?thesis by (simp add: fill_hex_def f)
  next
    case (Inr v)
    have "rgbContainer (colors \<sigma> ! c) \<noteq> None \<longrightarrow> hexToRgb (rgbToHex v) = Some v"
    proof
      assume "rgbContainer (colors \<sigma> ! c) \<noteq> None"
      then have "rgbContainer (colors \<sigma> ! c) = Some v" using Inr by (auto simp: rgbView_def)
      then show "hexToRgb (rgbToHex v) = Some v"
        using assms f(1) by (intro hexToRgb_rgbToHex) (simp_all add: rgb_ok_def)
    qed
    then show ?thesis
      using Inr f by (simp add: fill_hex_def views_fill_hex)
  qed
qed

lemma fromHex_cases:
  "fromHex h \<sigma> =
     (if truthy (normalizeHex h) then
        Inr (length (colors \<sigma>),
             \<sigma>\<lparr>colors := colors \<sigma> @ [\<lparr>hexContainer = normalizeHex h, rgbContainer = None,
                                        hslContainer = None, yuvContainer = None, alpha = 1\<rparr>]\<rparr>)
      else Inl InvalidHexValue)"
  by (simp add: fromHex_def new_Color_def alloc_color_def)

lemma bindE_Inr_iff: "bindE m f = Inr y \<longleftrightarrow> (\<exists>x. m = Inr x \<and> f x = Inr y)"
  by (cases m) simp_all

section \<open>The round trip through HSL\<close>

text \<open>
  With exact arithmetic \<^verbatim>\<open>hslToRgb\<close> undoes \<^verbatim>\<open>rgbToHsl\<close> on channels from 0 to 255:
  \<open>q\<close> and \<open>p\<close> are the largest and the smallest channel, and \<open>hue2rgb\<close> gives each
  channel back at its hue offset.
\<close>

lemma hue2rgb_1: "0 \<le> t \<Longrightarrow> t < 1 / 6 \<Longrightarrow> hue2rgb p q t = p + (q - p) * 6 * t"
  by (simp add: hue2rgb_def)

lemma hue2rgb_2: "1 / 6 \<le> t \<Longrightarrow> t < 1 / 2 \<Longrightarrow> hue2rgb p q t = q"
  by (simp add: hue2rgb_def)

lemma hue2rgb_3: "1 / 2 \<le> t \<Longrightarrow> t < 2 / 3 \<Longrightarrow> hue2rgb p q t = p + (q - p) * (2 / 3 - t) * 6"
  by (simp add: hue2rgb_def)

lemma hue2rgb_4: "2 / 3 \<le> t \<Longrightarrow> t \<le> 1 \<Longrightarrow> hue2rgb p q t = p"
  by (simp add: hue2rgb_def)

lemma hue2rgb_neg: "- 1 \<le> t \<Longrightarrow> t < 0 \<Longrightarrow> hue2rgb p q t = hue2rgb p q (t + 1)"
  by (simp add: hue2rgb_def)

lemma hue2rgb_big: "1 < t \<Longrightarrow> t \<le> 2 \<Longrightarrow> hue2rgb p q t = hue2rgb p q (t - 1)"
  by (simp add: hue2rgb_def)

lemma channels:
  fixes r g b :: real
  assumes ne: "max r (max g b) \<noteq> min r (min g b)"
  defines "mx \<equiv> max r (max g b)" and "mn \<equiv> min r (min g b)"
  assumes h6: "h = (if mx = r then (g - b) / (mx - mn) + (if g < b then 6 else 0)
                    else if mx = g then (b - r) / (mx - mn) + 2
                    else (r - g) / (mx - mn) + 4) / 6"
  shows "hue2rgb mn mx (h + 1 / 3) = r \<and> hue2rgb mn mx h = g \<and> hue2rgb mn mx (h - 1 / 3) = b"
proof -
  have d: "mx - mn > 0" using ne unfolding mx_def mn_def by linarith
  consider (A) "mx = r" "b \<le> g" | (B) "mx = r" "g < b" | (C) "mx \<noteq> r" "mx = g" | (D) "mx \<noteq> r" "mx \<noteq> g"
    by linarith
  then show ?thesis
  proof cases
    case A
    then have mn: "mn = b" unfolding mx_def mn_def by linarith
    define x where "x = (g - b) / (r - b)"
    have rb: "r - b > 0" using d A mn by simp
    have x: "0 \<le> x" "x \<le> 1" using A rb unfolding x_def mx_def by (simp_all add: field_simps)
    have h: "h = x / 6" using A unfolding h6 x_def mn by simp
    have xd: "x * (r - b) = g - b" using rb unfolding x_def by simp
    have R: "hue2rgb mn mx (h + 1 / 3) = r"
    proof (cases "x < 1")
      case True
      have "hue2rgb mn mx (h + 1 / 3) = mx" by (rule hue2rgb_2) (use x h True in linarith)+
      then show ?thesis using A by simp
    next
      case False
      have "hue2rgb mn mx (h + 1 / 3) = mn + (mx - mn) * (2 / 3 - (h + 1 / 3)) * 6"
        by (rule hue2rgb_3) (use x h False in linarith)+
      also have "\<dots> = mx" using False x by (simp add: h field_simps)
      finally show ?thesis using A by simp
    qed
    have G: "hue2rgb mn mx h = g"
    proof (cases "x < 1")
      case True
      have "hue2rgb mn mx h = mn + (mx - mn) * 6 * h" by (rule hue2rgb_1) (use x h True in linarith)+
      also have "\<dots> = b + x * (r - b)" by (simp add: h mn A(1) field_simps)
      finally show ?thesis using xd by linarith
    next
      case False
      then have x1: "x = 1" using x by simp
      have "hue2rgb mn mx h = mx" by (rule hue2rgb_2) (use x h False in linarith)+
      then show ?thesis using A xd x1 by simp
    qed
    have B: "hue2rgb mn mx (h - 1 / 3) = b"
    proof -
      have "hue2rgb mn mx (h - 1 / 3) = hue2rgb mn mx (h - 1 / 3 + 1)"
        by (rule hue2rgb_neg) (use x h in linarith)+
      also have "\<dots> = mn" by (rule hue2rgb_4) (use x h in linarith)+
      finally show ?thesis using mn by simp
    qed
    show ?thesis using R G B by simp
  next
    case B
    then have mn: "mn = g" unfolding mx_def mn_def by linarith
    define x where "x = (g - b) / (r - g)"
    have rg: "r - g > 0" using d B mn by simp
    have "b \<le> r" using B unfolding mx_def by linarith
    then have x: "- 1 \<le> x" "x < 0" using B rg unfolding x_def by (simp_all add: field_simps)
    have h: "h = x / 6 + 1" using B unfolding h6 x_def mn by (simp add: add_divide_distrib)
    have xd: "x * (r - g) = g - b" using rg unfolding x_def by simp
    have R: "hue2rgb mn mx (h + 1 / 3) = r"
    proof -
      have "hue2rgb mn mx (h + 1 / 3) = hue2rgb mn mx (h + 1 / 3 - 1)"
        by (rule hue2rgb_big) (use x h in linarith)+
      also have "\<dots> = mx" by (rule hue2rgb_2) (use x h in linarith)+
      finally show ?thesis using B by simp
    qed
    have G: "hue2rgb mn mx h = g"
    proof -
      have "hue2rgb mn mx h = mn" by (rule hue2rgb_4) (use x h in linarith)+
      then show ?thesis using mn by simp
    qed
    have Bl: "hue2rgb mn mx (h - 1 / 3) = b"
    proof -
      have "hue2rgb mn mx (h - 1 / 3) = mn + (mx - mn) * (2 / 3 - (h - 1 / 3)) * 6"
        by (rule hue2rgb_3) (use x h in linarith)+
      also have "\<dots> = g - x * (r - g)" by (simp add: h mn B(1) field_simps)
      finally show ?thesis using xd by linarith
    qed
    show ?thesis using R G Bl by simp
  next
    case C
    then have rlt: "r < g" "b \<le> g" unfolding mx_def by linarith+
    define x where "x = (b - r) / (g - mn)"
    have gm: "g - mn > 0" using d C by simp
    have mnle: "mn \<le> r" "mn \<le> b" unfolding mn_def by linarith+
    have x: "- 1 \<le> x" "x \<le> 1" using rlt gm mnle unfolding x_def by (simp_all add: field_simps)
    have h: "h = x / 6 + 1 / 3" using C unfolding h6 x_def by (simp add: add_divide_distrib)
    have xd: "x * (g - mn) = b - r" using gm unfolding x_def by simp
    have xs: "x < 0 \<longleftrightarrow> b < r" using gm unfolding x_def by (simp add: field_simps)
    have R: "hue2rgb mn mx (h + 1 / 3) = r"
    proof (cases "x < 0")
      case True
      then have m: "mn = b" using xs rlt unfolding mn_def by linarith
      have "hue2rgb mn mx (h + 1 / 3) = mn + (mx - mn) * (2 / 3 - (h + 1 / 3)) * 6"
        by (rule hue2rgb_3) (use x h True in linarith)+
      also have "\<dots> = mn - x * (g - mn)" by (simp add: h C(2) field_simps)
      finally show ?thesis using xd m by linarith
    next
      case False
      then have m: "mn = r" using xs rlt unfolding mn_def by linarith
      have "hue2rgb mn mx (h + 1 / 3) = mn" by (rule hue2rgb_4) (use x h False in linarith)+
      then show ?thesis using m by simp
    qed
    have G: "hue2rgb mn mx h = g"
    proof (cases "x < 1")
      case True
      have "hue2rgb mn mx h = mx" by (rule hue2rgb_2) (use x h True in linarith)+
      then show ?thesis using C by simp
    next
      case False
      have "hue2rgb mn mx h = mn + (mx - mn) * (2 / 3 - h) * 6"
        by (rule hue2rgb_3) (use x h False in linarith)+
      also have "\<dots> = mx" using False x by (simp add: h field_simps)
      finally show ?thesis using C by simp
    qed
    have Bl: "hue2rgb mn mx (h - 1 / 3) = b"
    proof (cases "x < 0")
      case True
      then have m: "mn = b" using xs rlt unfolding mn_def by linarith
      have "hue2rgb mn mx (h - 1 / 3) = hue2rgb mn mx (h - 1 / 3 + 1)"
        by (rule hue2rgb_neg) (use x h True in linarith)+
      also have "\<dots> = mn" by (rule hue2rgb_4) (use x h True in linarith)+
      finally show ?thesis using m by simp
    next
      case False
      then have m: "mn = r" using xs rlt unfolding mn_def by linarith
      show ?thesis
      proof (cases "x < 1")
        case True
        have "hue2rgb mn mx (h - 1 / 3) = mn + (mx - mn) * 6 * (h - 1 / 3)"
          by (rule hue2rgb_1) (use x h True False in linarith)+
        also have "\<dots> = mn + x * (g - mn)" by (simp add: h C(2) field_simps)
        finally show ?thesis using xd m by linarith
      next
        case False
        then have x1: "x = 1" using x by simp
        have "hue2rgb mn mx (h - 1 / 3) = mx" by (rule hue2rgb_2) (use x h x1 in linarith)+
        then show ?thesis using xd m x1 C by simp
      qed
    qed
    show ?thesis using R G Bl by simp
  next
    case D
    then have mb: "mx = b" unfolding mx_def by linarith
    have lt: "r < b" "g < b" using D mb unfolding mx_def by linarith+
    define x where "x = (r - g) / (b - mn)"
    have bm: "b - mn > 0" using d mb by simp
    have mnle: "mn \<le> r" "mn \<le> g" unfolding mn_def by linarith+
    have x: "- 1 < x" "x < 1" using lt bm mnle unfolding x_def by (simp_all add: field_simps)
    have h: "h = x / 6 + 2 / 3" using D unfolding h6 x_def mb by (simp add: add_divide_distrib)
    have xd: "x * (b - mn) = r - g" using bm unfolding x_def by simp
    have xs: "x \<le> 0 \<longleftrightarrow> r \<le> g" "x < 0 \<longleftrightarrow> r < g" using bm unfolding x_def by (simp_all add: field_simps)
    have R: "hue2rgb mn mx (h + 1 / 3) = r"
    proof (cases "x \<le> 0")
      case True
      then have m: "mn = r" using xs lt unfolding mn_def by linarith
      have "hue2rgb mn mx (h + 1 / 3) = mn" by (rule hue2rgb_4) (use x h True in linarith)+
      then show ?thesis using m by simp
    next
      case False
      then have m: "mn = g" using xs lt unfolding mn_def by linarith
      have "hue2rgb mn mx (h + 1 / 3) = hue2rgb mn mx (h + 1 / 3 - 1)"
        by (rule hue2rgb_big) (use x h False in linarith)+
      also have "\<dots> = mn + (mx - mn) * 6 * (h + 1 / 3 - 1)"
        by (rule hue2rgb_1) (use x h False in linarith)+
      also have "\<dots> = mn + x * (b - mn)" by (simp add: h mb field_simps)
      finally show ?thesis using xd m by linarith
    qed
    have G: "hue2rgb mn mx h = g"
    proof (cases "x < 0")
      case True
      then have m: "mn = r" using xs lt unfolding mn_def by linarith
      have "hue2rgb mn mx h = mn + (mx - mn) * (2 / 3 - h) * 6"
        by (rule hue2rgb_3) (use x h True in linarith)+
      also have "\<dots> = mn - x * (b - mn)" by (simp add: h mb field_simps)
      finally show ?thesis using xd m by linarith
    next
      case False
      then have m: "mn = g" using xs lt unfolding mn_def by linarith
      have "hue2rgb mn mx h = mn" by (rule hue2rgb_4) (use x h False in linarith)+
      then show ?thesis using m by simp
    qed
    have Bl: "hue2rgb mn mx (h - 1 / 3) = b"
    proof -
      have "hue2rgb mn mx (h - 1 / 3) = mx" by (rule hue2rgb_2) (use x h in linarith)+
      then show ?thesis using mb by simp
    qed
    show ?thesis using R G Bl by simp
  qed
qed

lemma js_round_channel: "js_round (real_of_int n / 255 * 255) = n"
  by (simp add: js_round_def)

lemma lightness_pq:
  fixes mx mn :: real
  assumes "0 \<le> mn" "mn < mx" "mx \<le> 1"
  defines "l \<equiv> (mx + mn) / 2"
  defines "s \<equiv> (if l > 0.5 then (mx - mn) / (2 - mx - mn) else (mx - mn) / (mx + mn))"
  defines "q \<equiv> (if l < 0.5 then l * (1 + s) else l + s - l * s)"
  shows "s \<noteq> 0" and "q = mx" and "2 * l - q = mn"
proof -
  have pos: "mx + mn > 0" "2 - mx - mn > 0" "mx - mn > 0" using assms(1-3) by linarith+
  have l2: "2 * l = mx + mn" unfolding l_def by simp
  show "s \<noteq> 0" using pos unfolding s_def by simp
  show q: "q = mx"
  proof (cases "l > 0.5")
    case True
    then have "s = (mx - mn) / (2 - mx - mn)" unfolding s_def by simp
    then have sd: "s * (2 - mx - mn) = mx - mn" using pos by simp
    have "q = l + s - l * s" using True unfolding q_def by simp
    also have "\<dots> = l + (s * (2 - 2 * l)) / 2" by (simp add: field_simps)
    also have "\<dots> = l + (s * (2 - mx - mn)) / 2" using l2 by (simp add: field_simps)
    also have "\<dots> = l + (mx - mn) / 2" using sd by simp
    finally show ?thesis unfolding l_def by (simp add: field_simps)
  next
    case False
    then have "s = (mx - mn) / (mx + mn)" unfolding s_def by simp
    then have sd: "s * (mx + mn) = mx - mn" using pos by simp
    show ?thesis
    proof (cases "l < 0.5")
      case True
      then have "q = l * (1 + s)" unfolding q_def by simp
      also have "\<dots> = l + (s * (2 * l)) / 2" by (simp add: field_simps)
      also have "\<dots> = l + (s * (mx + mn)) / 2" using l2 by simp
      also have "\<dots> = l + (mx - mn) / 2" using sd by simp
      finally show ?thesis unfolding l_def by (simp add: field_simps)
    next
      case False
      with \<open>\<not> l > 0.5\<close> have l: "l = 1 / 2" by simp
      then have "mx + mn = 1" using l2 by simp
      then have s: "s = mx - mn" using sd by simp
      have "q = l + s - l * s" using False unfolding q_def by simp
      also have "\<dots> = 1 / 2 + (mx - mn) / 2" by (simp add: l s field_simps)
      finally show ?thesis using \<open>mx + mn = 1\<close> by (simp add: field_simps)
    qed
  qed
  show "2 * l - q = mn" using q l2 by linarith
qed

lemma hslToRgb_rgbToHsl:
  assumes "0 \<le> rgb_r rgb" "rgb_r rgb \<le> 255" "0 \<le> rgb_g rgb" "rgb_g rgb \<le> 255"
    "0 \<le> rgb_b rgb" "rgb_b rgb \<le> 255"
  shows "hslToRgb (rgbToHsl rgb) = rgb"
proof -
  define r g b where "r = real_of_int (rgb_r rgb) / 255" and "g = real_of_int (rgb_g rgb) / 255"
    and "b = real_of_int (rgb_b rgb) / 255"
  define mx mn where "mx = max r (max g b)" and "mn = min r (min g b)"
  have rng: "0 \<le> r" "r \<le> 1" "0 \<le> g" "g \<le> 1" "0 \<le> b" "b \<le> 1"
    using assms unfolding r_def g_def b_def by simp_all
  have rnd: "js_round (r * 255) = rgb_r rgb" "js_round (g * 255) = rgb_g rgb"
    "js_round (b * 255) = rgb_b rgb"
    unfolding r_def g_def b_def by (rule js_round_channel)+
  show ?thesis
  proof (cases "mx = mn")
    case True
    then have eq: "g = r" "b = r" "mx = r" "mn = r" unfolding mx_def mn_def by linarith+
    have "rgbToHsl rgb = \<lparr>hsl_h = 0, hsl_s = 0, hsl_l = r\<rparr>"
      using True eq unfolding rgbToHsl_def Let_def r_def[symmetric] g_def[symmetric] b_def[symmetric]
        mx_def[symmetric] mn_def[symmetric] by simp
    then have "hslToRgb (rgbToHsl rgb) =
        \<lparr>rgb_r = js_round (r * 255), rgb_g = js_round (g * 255), rgb_b = js_round (b * 255)\<rparr>"
      using eq by (simp add: hslToRgb_def)
    then show ?thesis using rnd by simp
  next
    case False
    define l where "l = (mx + mn) / 2"
    define s where "s = (if l > 0.5 then (mx - mn) / (2 - mx - mn) else (mx - mn) / (mx + mn))"
    define h where "h = (if mx = r then (g - b) / (mx - mn) + (if g < b then 6 else 0)
                    else if mx = g then (b - r) / (mx - mn) + 2
                    else (r - g) / (mx - mn) + 4) / 6"
    define q where "q = (if l < 0.5 then l * (1 + s) else l + s - l * s)"
    have m: "0 \<le> mn" "mn < mx" "mx \<le> 1" using False rng unfolding mx_def mn_def by linarith+
    have pq: "s \<noteq> 0" "q = mx" "2 * l - q = mn"
      using lightness_pq [OF m] unfolding l_def s_def q_def by simp_all
    have p: "2 * l - mx = mn" using pq by simp
    have hsl: "rgbToHsl rgb = \<lparr>hsl_h = h, hsl_s = s, hsl_l = l\<rparr>"
      using False unfolding rgbToHsl_def Let_def r_def[symmetric] g_def[symmetric] b_def[symmetric]
        mx_def[symmetric] mn_def[symmetric] l_def[symmetric] s_def[symmetric] h_def[symmetric]
      by simp
    have ch: "hue2rgb mn mx (h + 1 / 3) = r \<and> hue2rgb mn mx h = g \<and> hue2rgb mn mx (h - 1 / 3) = b"
      unfolding mx_def mn_def
      by (rule channels) (use False in \<open>simp_all add: mx_def mn_def h_def\<close>)
    have "hslToRgb \<lparr>hsl_h = h, hsl_s = s, hsl_l = l\<rparr> =
          \<lparr>rgb_r = js_round (hue2rgb mn mx (h + 1 / 3) * 255),
           rgb_g = js_round (hue2rgb mn mx h * 255),
           rgb_b = js_round (hue2rgb mn mx (h - 1 / 3) * 255)\<rparr>"
      unfolding hslToRgb_def Let_def HSL.select_convs q_def[symmetric] pq(2) p
      using pq(1) by simp
    then have "hslToRgb (rgbToHsl rgb) =
        \<lparr>rgb_r = js_round (r * 255), rgb_g = js_round (g * 255), rgb_b = js_round (b * 255)\<rparr>"
      using ch by (simp add: hsl)
    then show ?thesis using rnd by simp
  qed
qed

section \<open>\<^verbatim>\<open>Color.mix\<close>\<close>

lemma bytePair_at:
  "bytePair H 0 = (case parseInt16 (substring H 0 2) of Some n \<Rightarrow> n | None \<Rightarrow> 0)"
  "bytePair H 2 = (case parseInt16 (substring H 2 4) of Some n \<Rightarrow> n | None \<Rightarrow> 0)"
  "bytePair H 4 = (case parseInt16 (substring H 4 6) of Some n \<Rightarrow> n | None \<Rightarrow> 0)"
proof -
  have n: "(0::nat) + 2 = 2" "(2::nat) + 2 = 4" "(4::nat) + 2 = 6" by simp_all
  show "bytePair H 0 = (case parseInt16 (substring H 0 2) of Some n \<Rightarrow> n | None \<Rightarrow> 0)"
    "bytePair H 2 = (case parseInt16 (substring H 2 4) of Some n \<Rightarrow> n | None \<Rightarrow> 0)"
    "bytePair H 4 = (case parseInt16 (substring H 4 6) of Some n \<Rightarrow> n | None \<Rightarrow> 0)"
    unfolding bytePair_def n by (rule refl)+
qed

lemma mixPair_at:
  "mixPair hA hB w 0 =
     (case (parseInt16 (substring hA 0 2), parseInt16 (substring hB 0 2)) of
        (Some value1, Some value2) \<Rightarrow>
          Some (padStart (toString16 \<lfloor>dadd (real_of_int value2)
                  (dmul (dsub (real_of_int value1) (real_of_int value2)) (ddiv w 100))\<rfloor>) 2 CHR ''0'')
      | _ \<Rightarrow> None)"
  "mixPair hA hB w 2 =
     (case (parseInt16 (substring hA 2 4), parseInt16 (substring hB 2 4)) of
        (Some value1, Some value2) \<Rightarrow>
          Some (padStart (toString16 \<lfloor>dadd (real_of_int value2)
                  (dmul (dsub (real_of_int value1) (real_of_int value2)) (ddiv w 100))\<rfloor>) 2 CHR ''0'')
      | _ \<Rightarrow> None)"
  "mixPair hA hB w 4 =
     (case (parseInt16 (substring hA 4 6), parseInt16 (substring hB 4 6)) of
        (Some value1, Some value2) \<Rightarrow>
          Some (padStart (toString16 \<lfloor>dadd (real_of_int value2)
                  (dmul (dsub (real_of_int value1) (real_of_int value2)) (ddiv w 100))\<rfloor>) 2 CHR ''0'')
      | _ \<Rightarrow> None)"
proof -
  have n: "(0::nat) + 2 = 2" "(2::nat) + 2 = 4" "(4::nat) + 2 = 6" by simp_all
  show "mixPair hA hB w 0 =
     (case (parseInt16 (substring hA 0 2), parseInt16 (substring hB 0 2)) of
        (Some value1, Some value2) \<Rightarrow>
          Some (padStart (toString16 \<lfloor>dadd (real_of_int value2)
                  (dmul (dsub (real_of_int value1) (real_of_int value2)) (ddiv w 100))\<rfloor>) 2 CHR ''0'')
      | _ \<Rightarrow> None)"
  "mixPair hA hB w 2 =
     (case (parseInt16 (substring hA 2 4), parseInt16 (substring hB 2 4)) of
        (Some value1, Some value2) \<Rightarrow>
          Some (padStart (toString16 \<lfloor>dadd (real_of_int value2)
                  (dmul (dsub (real_of_int value1) (real_of_int value2)) (ddiv w 100))\<rfloor>) 2 CHR ''0'')
      | _ \<Rightarrow> None)"
  "mixPair hA hB w 4 =
     (case (parseInt16 (substring hA 4 6), parseInt16 (substring hB 4 6)) of
        (Some value1, Some value2) \<Rightarrow>
          Some (padStart (toString16 \<lfloor>dadd (real_of_int value2)
                  (dmul (dsub (real_of_int value1) (real_of_int value2)) (ddiv w 100))\<rfloor>) 2 CHR ''0'')
      | _ \<Rightarrow> None)"
    unfolding mixPair_def n by (rule refl)+
qed

lemma hex6_bytePair:
  assumes "hex6 H"
  shows "parseInt16 (substring H 0 2) = Some (bytePair H 0)"
    "parseInt16 (substring H 2 4) = Some (bytePair H 2)"
    "parseInt16 (substring H 4 6) = Some (bytePair H 4)"
    "0 \<le> bytePair H 0" "bytePair H 0 \<le> 255" "0 \<le> bytePair H 2" "bytePair H 2 \<le> 255"
    "0 \<le> bytePair H 4" "bytePair H 4 \<le> 255"
  using hex6_bytes [of H] assms by (auto simp: hex6_def bytePair_at)

lemma mixPair_eq:
  assumes "hex6 hA" "hex6 hB"
  shows "mixPair hA hB w 0 = Some (padStart (toString16 (blend hA hB w 0)) 2 CHR ''0'')"
    "mixPair hA hB w 2 = Some (padStart (toString16 (blend hA hB w 2)) 2 CHR ''0'')"
    "mixPair hA hB w 4 = Some (padStart (toString16 (blend hA hB w 4)) 2 CHR ''0'')"
  using hex6_bytePair(1-3) [OF assms(1)] hex6_bytePair(1-3) [OF assms(2)]
  by (simp_all add: mixPair_at blend_def)

lemma blend_byte:
  assumes "hex6 hA" "hex6 hB" "0 \<le> w" "w \<le> 100"
  shows "0 \<le> blend hA hB w 0" "blend hA hB w 0 \<le> 255" "0 \<le> blend hA hB w 2"
    "blend hA hB w 2 \<le> 255" "0 \<le> blend hA hB w 4" "blend hA hB w 4 \<le> 255"
proof -
  note A = hex6_bytePair(4-9) [OF assms(1)] and B = hex6_bytePair(4-9) [OF assms(2)]
  show "0 \<le> blend hA hB w 0" unfolding blend_def
    by (rule blend_range(1) [OF A(1) A(2) B(1) B(2) assms(3) assms(4)])
  show "blend hA hB w 0 \<le> 255" unfolding blend_def
    by (rule blend_range(2) [OF A(1) A(2) B(1) B(2) assms(3) assms(4)])
  show "0 \<le> blend hA hB w 2" unfolding blend_def
    by (rule blend_range(1) [OF A(3) A(4) B(3) B(4) assms(3) assms(4)])
  show "blend hA hB w 2 \<le> 255" unfolding blend_def
    by (rule blend_range(2) [OF A(3) A(4) B(3) B(4) assms(3) assms(4)])
  show "0 \<le> blend hA hB w 4" unfolding blend_def
    by (rule blend_range(1) [OF A(5) A(6) B(5) B(6) assms(3) assms(4)])
  show "blend hA hB w 4 \<le> 255" unfolding blend_def
    by (rule blend_range(2) [OF A(5) A(6) B(5) B(6) assms(3) assms(4)])
qed

lemma final_hex:
  assumes "0 \<le> r" "r \<le> 255" "0 \<le> g" "g \<le> 255" "0 \<le> b" "b \<le> 255"
  defines "fin \<equiv> padStart (toString16 r) 2 CHR ''0'' @ padStart (toString16 g) 2 CHR ''0'' @
                  padStart (toString16 b) 2 CHR ''0''"
  shows "normalizeHex fin = Some fin" "hexToRgb fin = Some \<lparr>rgb_r = r, rgb_g = g, rgb_b = b\<rparr>"
    "fin \<noteq> []" "rgbToHex \<lparr>rgb_r = r, rgb_g = g, rgb_b = b\<rparr> = fin"
proof -
  obtain a1 a2 where r: "padStart (toString16 r) 2 CHR ''0'' = [a1, a2]"
      "\<not> nonHexLetter a1" "\<not> nonHexLetter a2" "a1 \<noteq> CHR ''#''"
    using byte_pair [OF assms(1,2)] by blast
  obtain b1 b2 where g: "padStart (toString16 g) 2 CHR ''0'' = [b1, b2]"
      "\<not> nonHexLetter b1" "\<not> nonHexLetter b2"
    using byte_pair [OF assms(3,4)] by blast
  obtain c1 c2 where b: "padStart (toString16 b) 2 CHR ''0'' = [c1, c2]"
      "\<not> nonHexLetter c1" "\<not> nonHexLetter c2"
    using byte_pair [OF assms(5,6)] by blast
  have fin: "fin = [a1, a2, b1, b2, c1, c2]" by (simp add: fin_def r g b)
  show "normalizeHex fin = Some fin"
    using r g b by (simp add: fin normalizeHex_alt stripHash_def)
  show "fin \<noteq> []" by (simp add: fin)
  show "rgbToHex \<lparr>rgb_r = r, rgb_g = g, rgb_b = b\<rparr> = fin" by (simp add: rgbToHex_def fin_def)
  then show "hexToRgb fin = Some \<lparr>rgb_r = r, rgb_g = g, rgb_b = b\<rparr>"
    using hexToRgb_rgbToHex [of "\<lparr>rgb_r = r, rgb_g = g, rgb_b = b\<rparr>"] assms(1-6) by simp
qed

lemma mix_eq:
  assumes c: "c1 < length (colors \<sigma>)" "c2 < length (colors \<sigma>)"
    and hA: "hexView (colors \<sigma> ! c1) (hsls \<sigma>) = Inr hA" "hex6 hA"
    and hB: "hexView (colors \<sigma> ! c2) (hsls \<sigma>) = Inr hB" "hex6 hB"
    and w: "0 \<le> w" "w \<le> 100"
  defines "rgb \<equiv> \<lparr>rgb_r = blend hA hB w 0, rgb_g = blend hA hB w 2, rgb_b = blend hA hB w 4\<rparr>"
  defines "a \<equiv> dadd (alpha (colors \<sigma> ! c2))
                  (dmul (dsub (alpha (colors \<sigma> ! c1)) (alpha (colors \<sigma> ! c2))) (ddiv w 100))"
  shows "mix c1 c2 w \<sigma> =
     Inr (Suc (length (colors \<sigma>)),
          produced (rgbToHsl rgb) a (rgbToHsl rgb) (length (colors \<sigma>)) (mixed (rgbToHex rgb) c1 c2 \<sigma>))"
proof -
  let ?\<sigma>1 = "fill_hex c1 \<sigma>" and ?\<sigma>2 = "fill_hex c2 (fill_hex c1 \<sigma>)"
  let ?fin = "rgbToHex rgb"
  let ?\<sigma>3 = "mixed ?fin c1 c2 \<sigma>"
  note bb = blend_byte [OF hA(2) hB(2) w]
  have fin: "normalizeHex ?fin = Some ?fin" "hexToRgb ?fin = Some rgb" "?fin \<noteq> []"
    using final_hex [OF bb] by (simp_all add: rgb_def rgbToHex_def)
  have g1: "get_hex c1 \<sigma> = Inr (hA, ?\<sigma>1)" by (simp add: get_hex_cases [OF c(1)] hA)
  have c2': "c2 < length (colors ?\<sigma>1)" using c(2) by (simp add: fill_hex_props)
  have g2: "get_hex c2 ?\<sigma>1 = Inr (hB, ?\<sigma>2)"
    by (simp add: get_hex_cases [OF c2'] fill_hex_hexView hB)
  have pairs: "mixPair hA hB w 0 = Some (padStart (toString16 (rgb_r rgb)) 2 CHR ''0'')"
    "mixPair hA hB w 2 = Some (padStart (toString16 (rgb_g rgb)) 2 CHR ''0'')"
    "mixPair hA hB w 4 = Some (padStart (toString16 (rgb_b rgb)) 2 CHR ''0'')"
    using mixPair_eq [OF hA(2) hB(2)] by (simp_all add: rgb_def)
  have len: "length (colors ?\<sigma>2) = length (colors \<sigma>)" by (simp add: fill_hex_props)
  have fh: "fromHex ?fin ?\<sigma>2 = Inr (length (colors \<sigma>), ?\<sigma>3)"
    using fin by (simp add: fromHex_cases truthy_def len mixed_def)
  have al: "dadd (get_alpha c2 ?\<sigma>2) (dmul (dsub (get_alpha c1 ?\<sigma>2) (get_alpha c2 ?\<sigma>2)) (ddiv w 100)) = a"
    by (simp add: get_alpha_def fill_hex_props a_def)
  have m: "length (colors \<sigma>) < length (colors ?\<sigma>3)" by (simp add: mixed_def len)
  have l3: "length (colors ?\<sigma>3) = Suc (length (colors \<sigma>))" by (simp add: mixed_def len)
  have obj: "colors ?\<sigma>3 ! length (colors \<sigma>) =
      \<lparr>hexContainer = Some ?fin, rgbContainer = None, hslContainer = None, yuvContainer = None,
       alpha = 1\<rparr>"
    by (simp add: mixed_def nth_append_len len)
  have hv: "hslView (colors ?\<sigma>3 ! length (colors \<sigma>)) (hsls ?\<sigma>3) = Inr (rgbToHsl rgb)"
    using fin by (simp add: obj hslView_def truthy_def hexToHsl_def)
  have wa: "withAlpha (length (colors \<sigma>)) a ?\<sigma>3 =
      Inr (Suc (length (colors \<sigma>)),
           produced (rgbToHsl rgb) a (rgbToHsl rgb) (length (colors \<sigma>)) ?\<sigma>3)"
    by (simp add: withAlpha_cases [OF m] hv l3)
  show ?thesis
    unfolding mix_def
    by (simp add: g1 g2 pairs Let_def al fh wa rgbToHex_def [of rgb, symmetric])
qed

section \<open>Results are backed by HSL\<close>

lemma unary_hsl_only:
  assumes "c < length (colors \<sigma>)"
    and "(case hslView (colors \<sigma> ! c) (hsls \<sigma>) of
            Inl e \<Rightarrow> Inl e
          | Inr v \<Rightarrow> Inr (length (colors \<sigma>), produced (W v) (A v) v c \<sigma>)) = Inr (k, \<sigma>')"
  shows "hsl_only k \<sigma>'"
  using unary_returns [OF assms] produced_hsl_only [OF assms(1)] by auto

lemma fromHex_new:
  assumes "fromHex h \<sigma> = Inr (m, \<sigma>')"
  shows "m < length (colors \<sigma>')"
  using assms by (auto simp: fromHex_cases split: if_splits)

lemma mix_hsl_only:
  assumes "mix c1 c2 w \<sigma> = Inr (k, \<sigma>')"
  shows "hsl_only k \<sigma>'"
proof -
  from assms obtain h1 \<sigma>1 h2 \<sigma>2 where
    r: "(case (mixPair h1 h2 w 0, mixPair h1 h2 w 2, mixPair h1 h2 w 4) of
           (Some p0, Some p2, Some p4) \<Rightarrow>
             (let a = dadd (get_alpha c2 \<sigma>2)
                        (dmul (dsub (get_alpha c1 \<sigma>2) (get_alpha c2 \<sigma>2)) (ddiv w 100))
              in bindE (fromHex (p0 @ p2 @ p4) \<sigma>2) (\<lambda>(m, \<sigma>3). withAlpha m a \<sigma>3))
         | _ \<Rightarrow> Inl InvalidHexValue) = Inr (k, \<sigma>')"
    unfolding mix_def by (auto simp: bindE_Inr_iff)
  then obtain fin a m \<sigma>3 where "fromHex fin \<sigma>2 = Inr (m, \<sigma>3)" "withAlpha m a \<sigma>3 = Inr (k, \<sigma>')"
    by (auto simp: bindE_Inr_iff Let_def split: option.splits)
  then show ?thesis
    using unary_hsl_only [of m \<sigma>3 "\<lambda>v. v" "\<lambda>v. a" k \<sigma>'] fromHex_new [of fin \<sigma>2 m \<sigma>3]
    by (simp add: withAlpha_cases)
qed

section \<open>The receiver is left as it was\<close>

lemma unary_new_keeping:
  assumes "ref_ok c \<sigma>" "hslView (colors \<sigma> ! c) (hsls \<sigma>) = Inr v0"
    and "\<And>v. hslView (colors \<sigma> ! c) (hsls \<sigma>) = Inr v \<Longrightarrow>
           m = Inr (length (colors \<sigma>), produced (W v) (A v) v c \<sigma>)"
  shows "new_keeping c \<sigma> m"
proof -
  have c: "c < length (colors \<sigma>)" using assms(1) by (simp add: ref_ok_def)
  show ?thesis
    unfolding new_keeping_def
    using assms(3) [OF assms(2)] c produced_observe_old [OF assms(1) assms(2), of "W v0" "A v0"]
    by auto
qed

lemma fill_hex_twice_views:
  assumes "truthy (hexContainer (colors \<sigma> ! c)) \<or> rgb_ok (colors \<sigma> ! c)" "c < length (colors \<sigma>)"
    and "hexView (colors \<sigma> ! c) (hsls \<sigma>) = Inr h"
  shows "views (colors (fill_hex d (fill_hex c \<sigma>)) ! c) (hsls (fill_hex d (fill_hex c \<sigma>))) =
         views (colors \<sigma> ! c) (hsls \<sigma>)"
proof -
  have t: "truthy (hexContainer (colors (fill_hex c \<sigma>) ! c))"
    using assms(2,3)
    by (auto simp: fill_hex_def hexView_def rgbView_def upd_nth split: option.splits sum.splits if_splits)
  have "colors (fill_hex d (fill_hex c \<sigma>)) ! c = colors (fill_hex c \<sigma>) ! c"
    by (cases "d = c") (simp_all add: fill_hex_other t)
  moreover have "views (colors (fill_hex c \<sigma>) ! c) (hsls (fill_hex c \<sigma>)) =
      views (colors \<sigma> ! c) (hsls \<sigma>)"
    by (rule fill_hex_views [OF assms(1)])
  ultimately show ?thesis
    by (simp add: fill_hex_props(2))
qed

lemma rgbToHex_ne: "rgbToHex v \<noteq> []"
  by (simp add: rgbToHex_def padStart_def)

lemma mix_new_keeping:
  assumes "ref_ok c \<sigma>" "d < length (colors \<sigma>)"
    and hA: "hexView (colors \<sigma> ! c) (hsls \<sigma>) = Inr hA" "hex6 hA"
    and hB: "hexView (colors \<sigma> ! d) (hsls \<sigma>) = Inr hB" "hex6 hB"
    and w: "0 \<le> w" "w \<le> 100"
  shows "new_keeping c \<sigma> (mix c d w \<sigma>)"
proof -
  have c: "c < length (colors \<sigma>)" using assms(1) by (simp add: ref_ok_def)
  define rgb where "rgb = \<lparr>rgb_r = blend hA hB w 0, rgb_g = blend hA hB w 2, rgb_b = blend hA hB w 4\<rparr>"
  define a where "a = dadd (alpha (colors \<sigma> ! d))
      (dmul (dsub (alpha (colors \<sigma> ! c)) (alpha (colors \<sigma> ! d))) (ddiv w 100))"
  let ?\<tau> = "mixed (rgbToHex rgb) c d \<sigma>"
  let ?n = "length (colors \<sigma>)"
  let ?\<sigma>' = "produced (rgbToHsl rgb) a (rgbToHsl rgb) ?n ?\<tau>"
  have m: "mix c d w \<sigma> = Inr (Suc ?n, ?\<sigma>')"
    unfolding rgb_def a_def by (rule mix_eq [OF c assms(2) hA hB w])
  have ok: "truthy (hexContainer (colors \<sigma> ! c)) \<or> rgb_ok (colors \<sigma> ! c)"
    using hex6_rgb_ok [OF hA] by blast
  have len: "length (colors ?\<tau>) = Suc ?n" by (simp add: mixed_def fill_hex_props)
  have obj: "colors ?\<tau> ! ?n =
      \<lparr>hexContainer = Some (rgbToHex rgb), rgbContainer = None, hslContainer = None,
       yuvContainer = None, alpha = 1\<rparr>"
    by (simp add: mixed_def nth_append_len fill_hex_props)
  have fin: "hexToRgb (rgbToHex rgb) = Some rgb"
    using final_hex(2,4) [OF blend_byte [OF hA(2) hB(2) w]] by (simp add: rgb_def)
  have hv: "hslView (colors ?\<tau> ! ?n) (hsls ?\<tau>) = Inr (rgbToHsl rgb)"
    using fin by (simp add: obj hslView_def hexToHsl_def rgbToHex_ne)
  have v\<tau>: "views (colors ?\<tau> ! c) (hsls ?\<tau>) = views (colors \<sigma> ! c) (hsls \<sigma>)"
    using c fill_hex_twice_views [OF ok c hA(1), of d]
    by (simp add: mixed_def nth_append fill_hex_props)
  have ok\<tau>: "ref_ok c ?\<tau>"
    using assms(1) by (simp add: ref_ok_def mixed_def nth_append fill_hex_props split: option.splits)
  have n\<tau>: "?n < length (colors ?\<tau>)" by (simp add: len)
  have "views (colors ?\<sigma>' ! c) (hsls ?\<sigma>') = views (colors ?\<tau> ! c) (hsls ?\<tau>)"
    by (rule produced_views_old [OF ok\<tau> n\<tau> hv])
  moreover have "c < length (colors ?\<sigma>')"
    using produced_new(3) [OF n\<tau>, of "rgbToHsl rgb" a "rgbToHsl rgb"] c len by simp
  ultimately have "observe c ?\<sigma>' = observe c \<sigma>"
    by (simp add: observe_views c v\<tau>)
  then show ?thesis
    unfolding new_keeping_def using m c by auto
qed


section \<open>Brightness and contrast\<close>

lemma get_rgb_cases:
  assumes "c < length (colors \<sigma>)"
  shows "get_rgb c \<sigma> =
     (case rgbView (colors \<sigma> ! c) (hsls \<sigma>) of
        Inl e \<Rightarrow> Inl e
      | Inr v \<Rightarrow> Inr (v, fill_rgb v c \<sigma>))"
proof (cases "rgbContainer (colors \<sigma> ! c)")
  case None
  then show ?thesis by (simp add: get_rgb_fill [OF assms] fill_rgb_def split: sum.splits)
next
  case (Some v)
  then show ?thesis by (simp add: get_rgb_cached rgbView_def fill_rgb_def)
qed

lemma fill_rgb_props:
  "length (colors (fill_rgb v c \<sigma>)) = length (colors \<sigma>)" "hsls (fill_rgb v c \<sigma>) = hsls \<sigma>"
  by (simp_all add: fill_rgb_def)

lemma fill_rgb_rgbView:
  assumes "rgbView (colors \<sigma> ! c) (hsls \<sigma>) = Inr v"
  shows "rgbView (colors (fill_rgb v c \<sigma>) ! d) (hsls (fill_rgb v c \<sigma>)) =
         rgbView (colors \<sigma> ! d) (hsls \<sigma>)"
proof (cases "d = c \<and> c < length (colors \<sigma>) \<and> rgbContainer (colors \<sigma> ! c) = None")
  case True
  then show ?thesis using assms by (simp add: fill_rgb_def rgbView_def)
next
  case False
  then show ?thesis by (auto simp: fill_rgb_def upd_nth)
qed

lemma perceivedBrightness_cases:
  assumes "c < length (colors \<sigma>)"
  shows "perceivedBrightness c \<sigma> =
     (case rgbView (colors \<sigma> ! c) (hsls \<sigma>) of
        Inl e \<Rightarrow> Inl e
      | Inr v \<Rightarrow> Inr (brightness v, fill_rgb v c \<sigma>))"
  by (simp add: perceivedBrightness_def get_rgb_cases [OF assms] brightness_def split: sum.splits)

lemma fl_1 [simp]: "fl 1 = 1"
  using fl_of_int [of 1] by simp

lemma brightness_eq:
  "brightness v =
     fl (fl (fl (c_r * real_of_int (rgb_r v)) + fl (c_g * real_of_int (rgb_g v))) +
         fl (c_b * real_of_int (rgb_b v)))"
  unfolding brightness_def dadd_def dmul_def lits by (rule refl)

lemma brightness_den: "dadd (brightness v) (fl 0.05) \<noteq> 0"
  unfolding brightness_eq dadd_def lits by (rule den_ne)

lemma contrast_eq:
  assumes "c0 < length (colors \<sigma>)" "c1 < length (colors \<sigma>)"
    and "rgbView (colors \<sigma> ! c0) (hsls \<sigma>) = Inr v0" "rgbView (colors \<sigma> ! c1) (hsls \<sigma>) = Inr v1"
  shows "result (contrast c0 c1 \<sigma>) =
     Inr (ddiv (dadd (max (brightness v0) (brightness v1)) (fl 0.05))
            (dadd (min (brightness v0) (brightness v1)) (fl 0.05)))"
proof -
  have c1': "c1 < length (colors (fill_rgb v0 c0 \<sigma>))" using assms(2) by (simp add: fill_rgb_props)
  have p: "perceivedBrightness c1 (fill_rgb v0 c0 \<sigma>) =
        Inr (brightness v1, fill_rgb v1 c1 (fill_rgb v0 c0 \<sigma>))"
    by (simp add: perceivedBrightness_cases [OF c1'] fill_rgb_rgbView [OF assms(3)] assms(4))
  have d: "dadd (min (brightness v0) (brightness v1)) (fl 0.05) \<noteq> 0"
    using brightness_den [of v0] brightness_den [of v1]
    by (cases "brightness v0 \<le> brightness v1") (simp_all add: min_def)
  show ?thesis
    using d by (simp add: contrast_def perceivedBrightness_cases [OF assms(1)] assms(3) p result_def)
qed

lemma contrast_same:
  assumes "c < length (colors \<sigma>)" "rgbView (colors \<sigma> ! c) (hsls \<sigma>) = Inr v"
  shows "result (contrast c c \<sigma>) = Inr 1"
  using contrast_eq [OF assms(1) assms(1) assms(2) assms(2)] brightness_den [of v]
  by (simp add: ddiv_def)

section \<open>The static colours\<close>

lemma initial_eq:
  "static_init =
     Inr ((0, 1, 2),
          \<lparr>colors =
             [\<lparr>hexContainer = Some ''ffffff'', rgbContainer = None, hslContainer = None,
               yuvContainer = None, alpha = 1\<rparr>,
              \<lparr>hexContainer = Some ''000000'', rgbContainer = None, hslContainer = None,
               yuvContainer = None, alpha = 1\<rparr>,
              \<lparr>hexContainer = None, rgbContainer = None, hslContainer = Some 0,
               yuvContainer = None, alpha = 0\<rparr>],
           hsls = [\<lparr>hsl_h = 0, hsl_s = 0, hsl_l = 0\<rparr>]\<rparr>)"
proof -
  have n: "\<not> list_ex nonHexLetter ''#ffffff''" "\<not> list_ex nonHexLetter ''#000000''"
    by (simp_all add: nonHexLetter_def code_def)
  have "normalizeHex ''#ffffff'' = Some ''ffffff''" "normalizeHex ''#000000'' = Some ''000000''"
    using n by (simp_all add: normalizeHex_alt stripHash_def)
  then show ?thesis
    by (simp add: static_init_def fromHex_cases truthy_def fromHSL_eq)
qed

lemma statics:
  "WHITE = 0" "BLACK = 1" "TRANSPARENT = 2"
  "initial =
     \<lparr>colors =
        [\<lparr>hexContainer = Some ''ffffff'', rgbContainer = None, hslContainer = None,
          yuvContainer = None, alpha = 1\<rparr>,
         \<lparr>hexContainer = Some ''000000'', rgbContainer = None, hslContainer = None,
          yuvContainer = None, alpha = 1\<rparr>,
         \<lparr>hexContainer = None, rgbContainer = None, hslContainer = Some 0,
          yuvContainer = None, alpha = 0\<rparr>],
      hsls = [\<lparr>hsl_h = 0, hsl_s = 0, hsl_l = 0\<rparr>]\<rparr>"
  by (simp_all add: WHITE_def BLACK_def TRANSPARENT_def initial_def initial_eq)

lemma hexValue_0f: "hexValue CHR ''0'' = 0" "hexValue CHR ''f'' = 15"
  by (simp_all add: hexValue_def isDigit_def code_def)

lemma isHexDigit_0f: "isHexDigit CHR ''0''" "isHexDigit CHR ''f''"
  by (simp_all add: isHexDigit_def isDigit_def code_def)

lemma hexToRgb_black_white:
  "hexToRgb ''000000'' = Some \<lparr>rgb_r = 0, rgb_g = 0, rgb_b = 0\<rparr>"
  "hexToRgb ''ffffff'' = Some \<lparr>rgb_r = 255, rgb_g = 255, rgb_b = 255\<rparr>"
  using parseInt16_pair [OF isHexDigit_0f(1) isHexDigit_0f(1)]
    parseInt16_pair [OF isHexDigit_0f(2) isHexDigit_0f(2)]
  by (simp_all add: hexToRgb_def charAt_def Let_def substring_6 hexValue_0f)

lemma initial_views:
  "rgbView (colors initial ! BLACK) (hsls initial) = Inr \<lparr>rgb_r = 0, rgb_g = 0, rgb_b = 0\<rparr>"
  "rgbView (colors initial ! WHITE) (hsls initial) = Inr \<lparr>rgb_r = 255, rgb_g = 255, rgb_b = 255\<rparr>"
  "hexView (colors initial ! BLACK) (hsls initial) = Inr ''000000''"
  "hexView (colors initial ! WHITE) (hsls initial) = Inr ''ffffff''"
  "BLACK < length (colors initial)" "WHITE < length (colors initial)"
  "backed (colors initial ! BLACK)" "backed (colors initial ! WHITE)"
  "ref_ok BLACK initial" "ref_ok WHITE initial" "rgb_ok (colors initial ! BLACK)"
  "rgb_ok (colors initial ! WHITE)" "hex6 ''000000''" "hex6 ''ffffff''"
  "hslView (colors initial ! BLACK) (hsls initial) = Inr \<lparr>hsl_h = 0, hsl_s = 0, hsl_l = 0\<rparr>"
  "hslView (colors initial ! WHITE) (hsls initial) = Inr \<lparr>hsl_h = 0, hsl_s = 0, hsl_l = 1\<rparr>"
  by (simp_all add: statics rgbView_def hexView_def truthy_def hexToRgb_black_white backed_def
      ref_ok_def rgb_ok_def hex6_def isHexDigit_0f hslView_def hexToHsl_def rgbToHsl_def Let_def)






lemma brightness_black: "brightness \<lparr>rgb_r = 0, rgb_g = 0, rgb_b = 0\<rparr> = 0"
  by (simp add: brightness_eq)

lemma brightness_white: "254 \<le> brightness \<lparr>rgb_r = 255, rgb_g = 255, rgb_b = 255\<rparr>"
proof -
  have r: "54 \<le> fl (c_r * 255)" using fl_between [of 54 "c_r * 255" 55] by (simp add: c_r_def)
  have g: "182 \<le> fl (c_g * 255)" using fl_between [of 182 "c_g * 255" 183] by (simp add: c_g_def)
  have b: "18 \<le> fl (c_b * 255)" using fl_between [of 18 "c_b * 255" 19] by (simp add: c_b_def)
  have "real_of_int 236 \<le> fl (c_r * 255) + fl (c_g * 255)" using r g by simp
  then have "fl (real_of_int 236) \<le> fl (fl (c_r * 255) + fl (c_g * 255))" by (rule fl_mono)
  then have "236 \<le> fl (fl (c_r * 255) + fl (c_g * 255))" using fl_of_int [of 236] by simp
  then have "real_of_int 254 \<le> fl (fl (c_r * 255) + fl (c_g * 255)) + fl (c_b * 255)" using b by simp
  then have "fl (real_of_int 254) \<le> fl (fl (fl (c_r * 255) + fl (c_g * 255)) + fl (c_b * 255))"
    by (rule fl_mono)
  then show ?thesis using fl_of_int [of 254] by (simp add: brightness_eq)
qed

lemma contrast_black_white:
  "\<exists>x. result (contrast BLACK WHITE initial) = Inr x \<and> 10 \<le> x"
proof -
  define W where "W = brightness \<lparr>rgb_r = 255, rgb_g = 255, rgb_b = 255\<rparr>"
  have W: "254 \<le> W" unfolding W_def by (rule brightness_white)
  have k: "fl 0.05 = c_k" by (rule lits)
  have ck: "0 < c_k" "c_k \<le> 1" "fl c_k = c_k"
    using fl_dyadic [of 3602879701896397 56] by (simp_all add: c_k_def)
  have r: "result (contrast BLACK WHITE initial) =
      Inr (ddiv (dadd (max 0 W) c_k) (dadd (min 0 W) c_k))"
    unfolding W_def
    using contrast_eq [OF initial_views(5) initial_views(6) initial_views(1) initial_views(2)]
    by (simp only: brightness_black k)
  have mm: "max 0 W = W" "min 0 W = 0" using W by simp_all
  have "real_of_int 254 \<le> W + c_k" using W ck(1) by simp
  then have "fl (real_of_int 254) \<le> fl (W + c_k)" by (rule fl_mono)
  then have num: "254 \<le> dadd W c_k" using fl_of_int [of 254] by (simp add: dadd_def)
  have den: "dadd 0 c_k = c_k" by (simp add: dadd_def ck(3))
  have "10 * c_k \<le> dadd W c_k" using num ck by linarith
  then have "real_of_int 10 \<le> dadd W c_k / c_k" using ck(1) by (simp add: pos_le_divide_eq)
  then have "fl (real_of_int 10) \<le> fl (dadd W c_k / c_k)" by (rule fl_mono)
  then have "10 \<le> ddiv (dadd W c_k) c_k" using fl_of_int [of 10] by (simp add: ddiv_def)
  then show ?thesis by (simp add: r mm den)
qed

section \<open>The properties of the specification\<close>

subsection \<open>RGB to HSL and back\<close>

text \<open>
  Claim C1. For every RGB triple with integer channels from 0 to 255,
  \<^verbatim>\<open>hslToRgb(rgbToHsl(rgb))\<close> differs from the triple by at most 1 in each channel. (With
  the exact arithmetic of the model the two triples are equal: lemma
  \<open>hslToRgb_rgbToHsl\<close>.)
\<close>

theorem rgb_hsl_roundtrip:
  assumes "0 \<le> rgb_r rgb" "rgb_r rgb \<le> 255" "0 \<le> rgb_g rgb" "rgb_g rgb \<le> 255"
    and "0 \<le> rgb_b rgb" "rgb_b rgb \<le> 255"
  shows "\<bar>rgb_r (hslToRgb (rgbToHsl rgb)) - rgb_r rgb\<bar> \<le> 1 \<and>
         \<bar>rgb_g (hslToRgb (rgbToHsl rgb)) - rgb_g rgb\<bar> \<le> 1 \<and>
         \<bar>rgb_b (hslToRgb (rgbToHsl rgb)) - rgb_b rgb\<bar> \<le> 1"
proof -
  have "hslToRgb (rgbToHsl rgb) = rgb" by (rule hslToRgb_rgbToHsl [OF assms])
  then show ?thesis by simp
qed

text \<open>The round trip of (17, 119, 170), the colour \<^verbatim>\<open>#1177aa\<close>.\<close>

theorem rgb_hsl_roundtrip_witness:
  "\<bar>rgb_r (hslToRgb (rgbToHsl \<lparr>rgb_r = 17, rgb_g = 119, rgb_b = 170\<rparr>)) - 17\<bar> \<le> 1 \<and>
   \<bar>rgb_g (hslToRgb (rgbToHsl \<lparr>rgb_r = 17, rgb_g = 119, rgb_b = 170\<rparr>)) - 119\<bar> \<le> 1 \<and>
   \<bar>rgb_b (hslToRgb (rgbToHsl \<lparr>rgb_r = 17, rgb_g = 119, rgb_b = 170\<rparr>)) - 170\<bar> \<le> 1"
  using rgb_hsl_roundtrip [of "\<lparr>rgb_r = 17, rgb_g = 119, rgb_b = 170\<rparr>"] by simp

subsection \<open>Hex to RGB and back\<close>

text \<open>
  Claim C2. For every string \<open>H\<close> of six hex digits, \<^verbatim>\<open>rgbToHex(hexToRgb(H))\<close> is
  \<open>H\<close> in lower case: the round trip changes nothing but the case of the letters.
\<close>

theorem hex_roundtrip:
  assumes "length H = 6" and "list_all isHexDigit H"
  shows "map_option rgbToHex (hexToRgb H) = Some (toLowerCase H)"
proof -
  from assms(1) obtain a b c d e f where H: "H = [a, b, c, d, e, f]"
    by (auto simp: length_Suc_conv eval_nat_numeral)
  have hd: "isHexDigit a" "isHexDigit b" "isHexDigit c" "isHexDigit d" "isHexDigit e" "isHexDigit f"
    using assms(2) by (simp_all add: H)
  obtain r where r: "parseInt16 [a, b] = Some r" "padStart (toString16 r) 2 CHR ''0'' = toLowerCase [a, b]"
    using pair_roundtrip [OF hd(1) hd(2)] by blast
  obtain g where g: "parseInt16 [c, d] = Some g" "padStart (toString16 g) 2 CHR ''0'' = toLowerCase [c, d]"
    using pair_roundtrip [OF hd(3) hd(4)] by blast
  obtain bl where bl: "parseInt16 [e, f] = Some bl" "padStart (toString16 bl) 2 CHR ''0'' = toLowerCase [e, f]"
    using pair_roundtrip [OF hd(5) hd(6)] by blast
  have nohash: "charAt H 0 \<noteq> ''#''"
    using hexDigit_not_sign [OF hd(1)] by (simp add: H charAt_def)
  have "hexToRgb H = Some \<lparr>rgb_r = r, rgb_g = g, rgb_b = bl\<rparr>"
    using nohash by (simp add: hexToRgb_def Let_def, simp add: H substring_6 r g bl)
  then show ?thesis
    using r g bl by (simp add: rgbToHex_def H toLowerCase_def)
qed

text \<open>The round trip of \<^verbatim>\<open>17A7dF\<close>.\<close>

theorem hex_roundtrip_witness:
  "length ''17A7dF'' = 6 \<and> list_all isHexDigit ''17A7dF'' \<and>
   map_option rgbToHex (hexToRgb ''17A7dF'') = Some ''17a7df''"
proof -
  have l: "length ''17A7dF'' = 6" by simp
  have h: "list_all isHexDigit ''17A7dF''" by (simp add: isHexDigit_def isDigit_def code_def)
  have t: "toLowerCase ''17A7dF'' = ''17a7df''" by (simp add: toLowerCase_def code_def char_of_eq_iff take_bit_eq_mod)
  show ?thesis using hex_roundtrip [OF l h] l h t by simp
qed

subsection \<open>\<^verbatim>\<open>normalizeHex\<close>\<close>

text \<open>
  Claim C3. \<^verbatim>\<open>normalizeHex\<close> strips one optional leading \<^verbatim>\<open>#\<close>; it returns
  \<^verbatim>\<open>null\<close> for an input with a letter in \<^verbatim>\<open>G-Z\<close> or \<^verbatim>\<open>g-z\<close>, for fewer than two
  remaining characters and for a remaining length other than 2, 3 or 6; two characters
  \<open>ab\<close> give \<open>ababab\<close>, three characters are doubled one by one, six characters pass
  through, with or without the leading \<^verbatim>\<open>#\<close> (a second \<^verbatim>\<open>#\<close> is not stripped: such an
  input is rejected, as the example \<^verbatim>\<open>##1\<close> of the claim says). The four examples of the
  claim are the last four conjuncts.
\<close>

theorem normalizeHex_spec:
  "(list_ex nonHexLetter s \<longrightarrow> normalizeHex s = None) \<and>
   (length (stripHash s) < 2 \<longrightarrow> normalizeHex s = None) \<and>
   (length (stripHash s) \<notin> {2, 3, 6} \<longrightarrow> normalizeHex s = None) \<and>
   (\<not> list_ex nonHexLetter [a, b] \<and> a \<noteq> CHR ''#'' \<longrightarrow>
      normalizeHex [a, b] = Some [a, b, a, b, a, b] \<and>
      normalizeHex (CHR ''#'' # [a, b]) = Some [a, b, a, b, a, b]) \<and>
   (\<not> list_ex nonHexLetter [a, b, c] \<and> a \<noteq> CHR ''#'' \<longrightarrow>
      normalizeHex [a, b, c] = Some [a, a, b, b, c, c] \<and>
      normalizeHex (CHR ''#'' # [a, b, c]) = Some [a, a, b, b, c, c]) \<and>
   (length t = 6 \<and> \<not> list_ex nonHexLetter t \<and> take 1 t \<noteq> ''#'' \<longrightarrow>
      normalizeHex t = Some t \<and> normalizeHex (CHR ''#'' # t) = Some t) \<and>
   normalizeHex ''17a'' = Some ''1177aa'' \<and>
   normalizeHex ''7f'' = Some ''7f7f7f'' \<and>
   normalizeHex ''##1'' = None \<and>
   normalizeHex [] = None"
proof -
  have nh: "\<not> nonHexLetter CHR ''#''" by (simp add: nonHexLetter_def code_def)
  have e1: "\<not> list_ex nonHexLetter ''17a''" "\<not> list_ex nonHexLetter ''7f''" "\<not> list_ex nonHexLetter ''##1''"
    by (simp_all add: nonHexLetter_def code_def)
  have six: "normalizeHex t = Some t \<and> normalizeHex (CHR ''#'' # t) = Some t"
    if "length t = 6" "\<not> list_ex nonHexLetter t" "take 1 t \<noteq> ''#''"
  proof -
    from that(1) obtain a b c d e f where t: "t = [a, b, c, d, e, f]"
      by (auto simp: length_Suc_conv eval_nat_numeral)
    show ?thesis using that nh by (simp add: t normalizeHex_alt stripHash_def)
  qed
  show ?thesis
    apply (intro conjI impI)
    subgoal by (simp add: normalizeHex_alt)
    subgoal by (auto simp add: normalizeHex_alt split: list.splits)
    subgoal by (auto simp add: normalizeHex_alt split: list.splits)
    subgoal using nh by (simp add: normalizeHex_alt stripHash_def)
    subgoal using nh by (simp add: normalizeHex_alt stripHash_def)
    subgoal using nh by (simp add: normalizeHex_alt stripHash_def)
    subgoal using nh by (simp add: normalizeHex_alt stripHash_def)
    subgoal using six by blast
    subgoal using six by blast
    subgoal using e1 by (simp add: normalizeHex_alt stripHash_def)
    subgoal using e1 by (simp add: normalizeHex_alt stripHash_def)
    subgoal using e1 by (simp add: normalizeHex_alt stripHash_def)
    subgoal by (simp add: normalizeHex_alt)
    done
qed

text \<open>Each rule of the claim at an input of its own.\<close>

theorem normalizeHex_spec_witness:
  "normalizeHex ''12G'' = None \<and> normalizeHex ''#1'' = None \<and> normalizeHex ''12345'' = None \<and>
   normalizeHex ''ab'' = Some ''ababab'' \<and> normalizeHex ''#ab'' = Some ''ababab'' \<and>
   normalizeHex ''0fc'' = Some ''00ffcc'' \<and> normalizeHex ''#0fc'' = Some ''00ffcc'' \<and>
   normalizeHex ''17a7df'' = Some ''17a7df'' \<and> normalizeHex ''#17a7df'' = Some ''17a7df''"
proof -
  have g: "list_ex nonHexLetter ''12G''" by (simp add: nonHexLetter_def code_def)
  have n: "\<not> list_ex nonHexLetter ''ab''" "\<not> list_ex nonHexLetter ''0fc''"
     "\<not> list_ex nonHexLetter ''17a7df''"
    by (simp_all add: nonHexLetter_def code_def)
  have "normalizeHex ''12G'' = None"
    using normalizeHex_spec [of "''12G''"] g by blast
  moreover have "normalizeHex ''#1'' = None"
    using normalizeHex_spec [of "''#1''"] by (simp add: stripHash_def)
  moreover have "normalizeHex ''12345'' = None"
    using normalizeHex_spec [of "''12345''"] by (simp add: stripHash_def)
  moreover have "normalizeHex ''ab'' = Some ''ababab'' \<and> normalizeHex ''#ab'' = Some ''ababab''"
    using normalizeHex_spec [where a = "CHR ''a''" and b = "CHR ''b''"] n by simp
  moreover have "normalizeHex ''0fc'' = Some ''00ffcc'' \<and> normalizeHex ''#0fc'' = Some ''00ffcc''"
    using normalizeHex_spec [where a = "CHR ''0''" and b = "CHR ''f''" and c = "CHR ''c''"] n by simp
  moreover have "normalizeHex ''17a7df'' = Some ''17a7df'' \<and> normalizeHex ''#17a7df'' = Some ''17a7df''"
    using normalizeHex_spec [where t = "''17a7df''"] n by simp
  ultimately show ?thesis by blast
qed

subsection \<open>\<^verbatim>\<open>mix\<close>\<close>



subsection \<open>\<^verbatim>\<open>shiftHue\<close>\<close>

text \<open>
  Claim C5. For every colour \<open>c\<close> (its getter \<^verbatim>\<open>hsl\<close> returns \<open>v\<close>) and every real amount,
  \<^verbatim>\<open>c.shiftHue(amount)\<close> returns a colour whose hue is \<^verbatim>\<open>c.hsl.h + amount\<close> reduced modulo 1
  in the mathematical sense (the sum minus its floor, so it lies in \<open>[0, 1)\<close> also for a
  negative sum), and whose saturation, lightness and alpha are those of \<open>c\<close>. The two
  examples of the claim are the theorem after this one.
\<close>

theorem shiftHue_spec:
  assumes "c < length (colors \<sigma>)" and "hsl_of c \<sigma> = Inr v"
  shows "\<exists>k \<sigma>'. shiftHue c amount \<sigma> = Inr (k, \<sigma>') \<and>
           hsl_of k \<sigma>' =
             Inr \<lparr>hsl_h = hsl_h v + amount - real_of_int \<lfloor>hsl_h v + amount\<rfloor>,
                  hsl_s = hsl_s v, hsl_l = hsl_l v\<rparr> \<and>
           0 \<le> hsl_h v + amount - real_of_int \<lfloor>hsl_h v + amount\<rfloor> \<and>
           hsl_h v + amount - real_of_int \<lfloor>hsl_h v + amount\<rfloor> < 1 \<and>
           get_alpha k \<sigma>' = get_alpha c \<sigma>"
proof -
  have v: "hslView (colors \<sigma> ! c) (hsls \<sigma>) = Inr v"
    using assms(2) by (simp add: hsl_of_view [OF assms(1)])
  let ?w = "\<lparr>hsl_h = modulo (hsl_h v + amount) 1, hsl_s = hsl_s v, hsl_l = hsl_l v\<rparr>"
  let ?\<sigma>' = "produced ?w (alpha (colors \<sigma> ! c)) v c \<sigma>"
  have k: "length (colors \<sigma>) < length (colors ?\<sigma>')" by (rule produced_new(3) [OF assms(1)])
  have "observe (length (colors \<sigma>)) ?\<sigma>' =
        (Inr (rgbToHex (hslToRgb ?w)), Inr (hslToRgb ?w), Inr ?w, Inr (rgbToYuv (hslToRgb ?w)),
         alpha (colors \<sigma> ! c))"
    by (simp add: observe_views [OF k] produced_views_new [OF assms(1)])
  then have new: "hsl_of (length (colors \<sigma>)) ?\<sigma>' = Inr ?w"
    "get_alpha (length (colors \<sigma>)) ?\<sigma>' = get_alpha c \<sigma>"
    by (simp_all add: observe_def get_alpha_def)
  have "shiftHue c amount \<sigma> = Inr (length (colors \<sigma>), ?\<sigma>')"
    by (rule shiftHue_eq [OF assms(1) v])
  then show ?thesis
    using new modulo_1_range [of "hsl_h v + amount"] by (simp add: modulo_1)
qed

text \<open>
  The two examples of the claim: hue 0.9 shifted by 0.3 is hue 0.2, and hue 0.1 shifted
  by -0.3 is hue 0.8.
\<close>

theorem shiftHue_spec_witness:
  "(\<exists>k \<sigma>'. shiftHue 0 (3 / 10)
       \<lparr>colors = [\<lparr>hexContainer = None, rgbContainer = None, hslContainer = Some 0,
                   yuvContainer = None, alpha = 1\<rparr>],
        hsls = [\<lparr>hsl_h = 9 / 10, hsl_s = 1, hsl_l = 1 / 2\<rparr>]\<rparr> = Inr (k, \<sigma>') \<and>
      hsl_of k \<sigma>' = Inr \<lparr>hsl_h = 1 / 5, hsl_s = 1, hsl_l = 1 / 2\<rparr> \<and> get_alpha k \<sigma>' = 1) \<and>
   (\<exists>k \<sigma>'. shiftHue 0 (- 3 / 10)
       \<lparr>colors = [\<lparr>hexContainer = None, rgbContainer = None, hslContainer = Some 0,
                   yuvContainer = None, alpha = 1\<rparr>],
        hsls = [\<lparr>hsl_h = 1 / 10, hsl_s = 1, hsl_l = 1 / 2\<rparr>]\<rparr> = Inr (k, \<sigma>') \<and>
      hsl_of k \<sigma>' = Inr \<lparr>hsl_h = 4 / 5, hsl_s = 1, hsl_l = 1 / 2\<rparr> \<and> get_alpha k \<sigma>' = 1)"
proof -
  let ?obj = "\<lparr>hexContainer = None, rgbContainer = None, hslContainer = Some 0,
               yuvContainer = None, alpha = 1\<rparr>"
  let ?A = "\<lparr>colors = [?obj], hsls = [\<lparr>hsl_h = 9 / 10, hsl_s = 1, hsl_l = 1 / 2\<rparr>]\<rparr>"
  let ?B = "\<lparr>colors = [?obj], hsls = [\<lparr>hsl_h = 1 / 10, hsl_s = 1, hsl_l = 1 / 2\<rparr>]\<rparr>"
  have a: "0 < length (colors ?A)"
    "hsl_of 0 ?A = Inr \<lparr>hsl_h = 9 / 10, hsl_s = 1, hsl_l = 1 / 2\<rparr>" "get_alpha 0 ?A = 1"
    by (simp_all add: hsl_of_view hslView_def get_alpha_def)
  have b: "0 < length (colors ?B)"
    "hsl_of 0 ?B = Inr \<lparr>hsl_h = 1 / 10, hsl_s = 1, hsl_l = 1 / 2\<rparr>" "get_alpha 0 ?B = 1"
    by (simp_all add: hsl_of_view hslView_def get_alpha_def)
  have f: "\<lfloor>(6 / 5 :: real)\<rfloor> = 1" "\<lfloor>(- 1 / 5 :: real)\<rfloor> = - 1" by linarith+
  have "\<exists>k \<sigma>'. shiftHue 0 (3 / 10) ?A = Inr (k, \<sigma>') \<and>
      hsl_of k \<sigma>' = Inr \<lparr>hsl_h = 1 / 5, hsl_s = 1, hsl_l = 1 / 2\<rparr> \<and> get_alpha k \<sigma>' = 1"
    using shiftHue_spec [OF a(1) a(2), of "3 / 10"] a(3) f by auto
  moreover have "\<exists>k \<sigma>'. shiftHue 0 (- 3 / 10) ?B = Inr (k, \<sigma>') \<and>
      hsl_of k \<sigma>' = Inr \<lparr>hsl_h = 4 / 5, hsl_s = 1, hsl_l = 1 / 2\<rparr> \<and> get_alpha k \<sigma>' = 1"
    using shiftHue_spec [OF b(1) b(2), of "- 3 / 10"] b(3) f by auto
  ultimately show ?thesis by blast
qed

subsection \<open>\<^verbatim>\<open>contrast\<close>\<close>

text \<open>
  Claim C6. For all colours \<open>c0\<close> and \<open>c1\<close> (their getters \<^verbatim>\<open>rgb\<close> return \<open>v0\<close> and \<open>v1\<close>),
  \<^verbatim>\<open>Color.contrast(c0, c1)\<close> is \<^verbatim>\<open>(max(lum0, lum1) + 0.05) / (min(lum0, lum1) + 0.05)\<close>, where
  \<open>lum0\<close> and \<open>lum1\<close> are the values of \<^verbatim>\<open>perceivedBrightness\<close>, that is
  \<^verbatim>\<open>0.2126 r + 0.7152 g + 0.0722 b\<close>; the contrast is symmetric; the contrast of a colour with
  itself is exactly 1; and the contrast of \<^verbatim>\<open>BLACK\<close> and \<^verbatim>\<open>WHITE\<close> is at least 10. The formulas
  are in the arithmetic of the program (\<open>brightness\<close> and the operations on doubles), where
  the denominator is never zero, whatever the integer channels are.
\<close>

theorem contrast_spec:
  assumes "c0 < length (colors \<sigma>)" "c1 < length (colors \<sigma>)"
    and "result (get_rgb c0 \<sigma>) = Inr v0" "result (get_rgb c1 \<sigma>) = Inr v1"
  shows "result (perceivedBrightness c0 \<sigma>) = Inr (brightness v0) \<and>
     result (perceivedBrightness c1 \<sigma>) = Inr (brightness v1) \<and>
     result (contrast c0 c1 \<sigma>) =
       Inr (ddiv (dadd (max (brightness v0) (brightness v1)) (fl 0.05))
              (dadd (min (brightness v0) (brightness v1)) (fl 0.05))) \<and>
     result (contrast c1 c0 \<sigma>) = result (contrast c0 c1 \<sigma>) \<and>
     result (contrast c0 c0 \<sigma>) = Inr 1 \<and>
     (\<exists>x. result (contrast BLACK WHITE initial) = Inr x \<and> 10 \<le> x)"
proof -
  have v0: "rgbView (colors \<sigma> ! c0) (hsls \<sigma>) = Inr v0"
    using assms(3) by (simp add: result_get_rgb assms(1))
  have v1: "rgbView (colors \<sigma> ! c1) (hsls \<sigma>) = Inr v1"
    using assms(4) by (simp add: result_get_rgb assms(2))
  have p: "result (perceivedBrightness c0 \<sigma>) = Inr (brightness v0)"
    "result (perceivedBrightness c1 \<sigma>) = Inr (brightness v1)"
    by (simp_all add: perceivedBrightness_cases assms(1,2) v0 v1 result_def)
  note c01 = contrast_eq [OF assms(1) assms(2) v0 v1]
  note c10 = contrast_eq [OF assms(2) assms(1) v1 v0]
  have sym: "result (contrast c1 c0 \<sigma>) = result (contrast c0 c1 \<sigma>)"
    by (simp add: c01 c10 max.commute min.commute)
  show ?thesis
    using p c01 sym contrast_same [OF assms(1) v0] contrast_black_white by simp
qed

text \<open>
  White and black in both orders, white with itself, and the colour
  \<^verbatim>\<open>Color.fromRGB({r: -44, g: 12, b: 10})\<close> with itself: its brightness is a double just below
  \<^verbatim>\<open>-0.05\<close>, and the contrast is 1.
\<close>

theorem contrast_spec_witness:
  "result (contrast BLACK WHITE initial) = result (contrast WHITE BLACK initial) \<and>
   result (contrast WHITE WHITE initial) = Inr 1 \<and>
   result (contrast 0 0
     \<lparr>colors = [\<lparr>hexContainer = None,
                 rgbContainer = Some \<lparr>rgb_r = - 44, rgb_g = 12, rgb_b = 10\<rparr>,
                 hslContainer = None, yuvContainer = None, alpha = 1\<rparr>],
      hsls = []\<rparr>) = Inr 1"
proof -
  let ?S = "\<lparr>colors = [\<lparr>hexContainer = None,
                 rgbContainer = Some \<lparr>rgb_r = - 44, rgb_g = 12, rgb_b = 10\<rparr>,
                 hslContainer = None, yuvContainer = None, alpha = 1\<rparr>],
      hsls = []\<rparr>"
  have g: "result (get_rgb WHITE initial) = Inr \<lparr>rgb_r = 255, rgb_g = 255, rgb_b = 255\<rparr>"
    "result (get_rgb BLACK initial) = Inr \<lparr>rgb_r = 0, rgb_g = 0, rgb_b = 0\<rparr>"
    by (simp_all add: result_get_rgb initial_views)
  have s: "0 < length (colors ?S)"
    "result (get_rgb 0 ?S) = Inr \<lparr>rgb_r = - 44, rgb_g = 12, rgb_b = 10\<rparr>"
    by (simp_all add: result_get_rgb rgbView_def)
  have "result (contrast BLACK WHITE initial) = result (contrast WHITE BLACK initial)"
    "result (contrast WHITE WHITE initial) = Inr 1"
    using contrast_spec [OF initial_views(6) initial_views(5) g] by blast+
  moreover have "result (contrast 0 0 ?S) = Inr 1"
    using contrast_spec [OF s(1) s(1) s(2) s(2)] by blast
  ultimately show ?thesis by blast
qed

subsection \<open>\<^verbatim>\<open>fromJSON\<close>\<close>

text \<open>
  Claim C7 says that an object with an \<^verbatim>\<open>h\<close> key is restored by \<^verbatim>\<open>fromHSL\<close>. The code
  tests \<^verbatim>\<open>parsed.h\<close> for truth, not for presence: an object whose hue is 0 falls through
  to \<^verbatim>\<open>null\<close>. Such an object is what \<^verbatim>\<open>toJSON\<close> gives for a red HSL colour, so
  \<^verbatim>\<open>fromJSON\<close> does not restore what \<^verbatim>\<open>toJSON\<close> wrote, against its own documentation.
  The theorem evaluates the code at this input.
\<close>

theorem fromJSON_zero_hue:
  "result (fromJSON parse
             (JsonObject [''h'' \<mapsto> JNum 0, ''s'' \<mapsto> JNum 1, ''l'' \<mapsto> JNum (1 / 2),
                          ''alpha'' \<mapsto> JNum 1]) \<sigma>) = Inr None \<and>
   result (bindE (fromHSL \<lparr>hsl_h = 0, hsl_s = 1, hsl_l = 1 / 2\<rparr> 1 \<sigma>)
             (\<lambda>(c, \<sigma>1). bindE (toJSON c \<sigma>1) (\<lambda>(j, \<sigma>2). fromJSON parse (JsonObject j) \<sigma>2))) =
     Inr None"
proof -
  have j: "fromParsed [''h'' \<mapsto> JNum 0, ''s'' \<mapsto> JNum 1, ''l'' \<mapsto> JNum (1 / 2), ''alpha'' \<mapsto> JNum 1] \<tau> =
      Inr (None, \<tau>)" for \<tau>
    by (simp add: fromParsed_def jv_truthy_def)
  show ?thesis
    by (simp add: fromJSON_def j result_def fromHSL_eq toJSON_def nth_append_len get_alpha_def)
qed

subsection \<open>\<^verbatim>\<open>withHue\<close>, \<^verbatim>\<open>withSaturation\<close>, \<^verbatim>\<open>withLightness\<close>\<close>

text \<open>
  Claim C8. For every colour \<open>c\<close> (its getter \<^verbatim>\<open>hsl\<close> returns \<open>v\<close>) and every value \<open>x\<close>, each of
  \<^verbatim>\<open>c.withHue(x)\<close>, \<^verbatim>\<open>c.withSaturation(x)\<close> and \<^verbatim>\<open>c.withLightness(x)\<close> returns a colour whose
  HSL is \<^verbatim>\<open>c.hsl\<close> with that one component replaced by \<open>x\<close>, and whose getters \<^verbatim>\<open>rgb\<close> and
  \<^verbatim>\<open>hex\<close> return the conversion of that updated HSL, \<^verbatim>\<open>hslToRgb\<close> and \<^verbatim>\<open>rgbToHex\<close> of it. The
  clone that \<^verbatim>\<open>withLightness\<close> writes to is new and has no hex or RGB container yet, so
  nothing stale can be read from it.
\<close>

theorem with_component_spec:
  assumes "c < length (colors \<sigma>)" and "hsl_of c \<sigma> = Inr v"
  shows "(\<exists>k \<sigma>'. withHue c x \<sigma> = Inr (k, \<sigma>') \<and> hsl_of k \<sigma>' = Inr (v\<lparr>hsl_h := x\<rparr>) \<and>
        result (get_rgb k \<sigma>') = Inr (hslToRgb (v\<lparr>hsl_h := x\<rparr>)) \<and>
        result (get_hex k \<sigma>') = Inr (rgbToHex (hslToRgb (v\<lparr>hsl_h := x\<rparr>)))) \<and>
     (\<exists>k \<sigma>'. withSaturation c x \<sigma> = Inr (k, \<sigma>') \<and> hsl_of k \<sigma>' = Inr (v\<lparr>hsl_s := x\<rparr>) \<and>
        result (get_rgb k \<sigma>') = Inr (hslToRgb (v\<lparr>hsl_s := x\<rparr>)) \<and>
        result (get_hex k \<sigma>') = Inr (rgbToHex (hslToRgb (v\<lparr>hsl_s := x\<rparr>)))) \<and>
     (\<exists>k \<sigma>'. withLightness c x \<sigma> = Inr (k, \<sigma>') \<and> hsl_of k \<sigma>' = Inr (v\<lparr>hsl_l := x\<rparr>) \<and>
        result (get_rgb k \<sigma>') = Inr (hslToRgb (v\<lparr>hsl_l := x\<rparr>)) \<and>
        result (get_hex k \<sigma>') = Inr (rgbToHex (hslToRgb (v\<lparr>hsl_l := x\<rparr>))))"
proof -
  have v: "hslView (colors \<sigma> ! c) (hsls \<sigma>) = Inr v"
    using assms(2) by (simp add: hsl_of_view [OF assms(1)])
  have new: "hsl_of (length (colors \<sigma>)) (produced w a v c \<sigma>) = Inr w \<and>
      result (get_rgb (length (colors \<sigma>)) (produced w a v c \<sigma>)) = Inr (hslToRgb w) \<and>
      result (get_hex (length (colors \<sigma>)) (produced w a v c \<sigma>)) = Inr (rgbToHex (hslToRgb w))"
    for w a
    using produced_observe_new [OF assms(1), of w a v] by (simp add: observe_def)
  have "withHue c x \<sigma> =
      Inr (length (colors \<sigma>), produced (v\<lparr>hsl_h := x\<rparr>) (alpha (colors \<sigma> ! c)) v c \<sigma>)"
    by (simp add: withHue_cases [OF assms(1)] v)
  moreover have "withSaturation c x \<sigma> =
      Inr (length (colors \<sigma>), produced (v\<lparr>hsl_s := x\<rparr>) (alpha (colors \<sigma> ! c)) v c \<sigma>)"
    by (simp add: withSaturation_cases [OF assms(1)] v)
  moreover have "withLightness c x \<sigma> =
      Inr (length (colors \<sigma>), produced (v\<lparr>hsl_l := x\<rparr>) (alpha (colors \<sigma> ! c)) v c \<sigma>)"
    by (simp add: withLightness_cases [OF assms(1)] v)
  ultimately show ?thesis using new by simp
qed

text \<open>
  \<^verbatim>\<open>WHITE.withLightness(0.5)\<close> is the grey (128, 128, 128), and \<^verbatim>\<open>WHITE.withHue(0.5)\<close> and
  \<^verbatim>\<open>WHITE.withSaturation(0)\<close> are white.
\<close>

theorem with_component_spec_witness:
  "(\<exists>k \<sigma>'. withLightness WHITE (1 / 2) initial = Inr (k, \<sigma>') \<and>
      hsl_of k \<sigma>' = Inr \<lparr>hsl_h = 0, hsl_s = 0, hsl_l = 1 / 2\<rparr> \<and>
      result (get_rgb k \<sigma>') = Inr \<lparr>rgb_r = 128, rgb_g = 128, rgb_b = 128\<rparr>) \<and>
   (\<exists>k \<sigma>'. withHue WHITE (1 / 2) initial = Inr (k, \<sigma>') \<and>
      hsl_of k \<sigma>' = Inr \<lparr>hsl_h = 1 / 2, hsl_s = 0, hsl_l = 1\<rparr> \<and>
      result (get_rgb k \<sigma>') = Inr \<lparr>rgb_r = 255, rgb_g = 255, rgb_b = 255\<rparr>) \<and>
   (\<exists>k \<sigma>'. withSaturation WHITE 0 initial = Inr (k, \<sigma>') \<and>
      hsl_of k \<sigma>' = Inr \<lparr>hsl_h = 0, hsl_s = 0, hsl_l = 1\<rparr> \<and>
      result (get_rgb k \<sigma>') = Inr \<lparr>rgb_r = 255, rgb_g = 255, rgb_b = 255\<rparr>)"
proof -
  have v: "hsl_of WHITE initial = Inr \<lparr>hsl_h = 0, hsl_s = 0, hsl_l = 1\<rparr>"
    by (simp add: hsl_of_view initial_views)
  have r: "hslToRgb \<lparr>hsl_h = 0, hsl_s = 0, hsl_l = 1 / 2\<rparr> = \<lparr>rgb_r = 128, rgb_g = 128, rgb_b = 128\<rparr>"
    "hslToRgb \<lparr>hsl_h = 1 / 2, hsl_s = 0, hsl_l = 1\<rparr> = \<lparr>rgb_r = 255, rgb_g = 255, rgb_b = 255\<rparr>"
    "hslToRgb \<lparr>hsl_h = 0, hsl_s = 0, hsl_l = 1\<rparr> = \<lparr>rgb_r = 255, rgb_g = 255, rgb_b = 255\<rparr>"
    by (simp_all add: hslToRgb_def js_round_def)
  show ?thesis
    using with_component_spec [OF initial_views(6) v, of "1 / 2"]
      with_component_spec [OF initial_views(6) v, of 0] r
    by auto
qed

subsection \<open>Transformations return a new instance\<close>

text \<open>
  Claim C9. For every colour \<open>c\<close> (its getter \<^verbatim>\<open>hsl\<close> returns a value), each of \<^verbatim>\<open>darken\<close>,
  \<^verbatim>\<open>lighten\<close>, \<^verbatim>\<open>saturate\<close>, \<^verbatim>\<open>desaturate\<close>, \<^verbatim>\<open>shiftHue\<close>, \<^verbatim>\<open>withAlpha\<close>, \<^verbatim>\<open>withHue\<close>,
  \<^verbatim>\<open>withSaturation\<close> and \<^verbatim>\<open>withLightness\<close> returns a new instance, distinct from \<open>c\<close>, and
  leaves the hex, rgb, hsl and yuv that the getters of \<open>c\<close> return and its alpha as they
  were; and so does \<^verbatim>\<open>c.mixWith(d, w)\<close> for a colour \<open>d\<close> and a weight \<open>w\<close> from 0 to 100,
  the getters \<^verbatim>\<open>hex\<close> of \<open>c\<close> and \<open>d\<close> returning six hex digits.
\<close>

theorem transformations_keep_receiver:
  assumes "ref_ok c \<sigma>" and "hsl_of c \<sigma> = Inr v"
  shows "new_keeping c \<sigma> (darken c p \<sigma>) \<and> new_keeping c \<sigma> (lighten c p \<sigma>) \<and>
     new_keeping c \<sigma> (saturate c p \<sigma>) \<and> new_keeping c \<sigma> (desaturate c p \<sigma>) \<and>
     new_keeping c \<sigma> (shiftHue c p \<sigma>) \<and> new_keeping c \<sigma> (withAlpha c p \<sigma>) \<and>
     new_keeping c \<sigma> (withHue c p \<sigma>) \<and> new_keeping c \<sigma> (withSaturation c p \<sigma>) \<and>
     new_keeping c \<sigma> (withLightness c p \<sigma>) \<and>
     (d < length (colors \<sigma>) \<and>
      result (get_hex c \<sigma>) = Inr hA \<and> hex6 hA \<and> result (get_hex d \<sigma>) = Inr hB \<and> hex6 hB \<and>
      0 \<le> w \<and> w \<le> 100 \<longrightarrow>
      new_keeping c \<sigma> (mixWith c d w \<sigma>))"
proof -
  have c: "c < length (colors \<sigma>)" using assms(1) by (simp add: ref_ok_def)
  have v: "hslView (colors \<sigma> ! c) (hsls \<sigma>) = Inr v"
    using assms(2) by (simp add: hsl_of_view [OF c])
  note u = unary_new_keeping [OF assms(1) v]
  have "new_keeping c \<sigma> (darken c p \<sigma>)" for p
    by (rule u [where A = "\<lambda>v. alpha (colors \<sigma> ! c)"]) (simp add: darken_cases [OF c])
  moreover have "new_keeping c \<sigma> (saturate c p \<sigma>)" for p
    by (rule u [where A = "\<lambda>v. alpha (colors \<sigma> ! c)"]) (simp add: saturate_cases [OF c])
  moreover have "new_keeping c \<sigma> (shiftHue c p \<sigma>)"
    by (rule u [where A = "\<lambda>v. alpha (colors \<sigma> ! c)"]) (simp add: shiftHue_cases [OF c])
  moreover have "new_keeping c \<sigma> (withAlpha c p \<sigma>)"
    by (rule u [where W = "\<lambda>v. v" and A = "\<lambda>v. p"]) (simp add: withAlpha_cases [OF c])
  moreover have "new_keeping c \<sigma> (withHue c p \<sigma>)"
    by (rule u [where W = "\<lambda>v. v\<lparr>hsl_h := p\<rparr>" and A = "\<lambda>v. alpha (colors \<sigma> ! c)"])
       (simp add: withHue_cases [OF c])
  moreover have "new_keeping c \<sigma> (withSaturation c p \<sigma>)"
    by (rule u [where W = "\<lambda>v. v\<lparr>hsl_s := p\<rparr>" and A = "\<lambda>v. alpha (colors \<sigma> ! c)"])
       (simp add: withSaturation_cases [OF c])
  moreover have "new_keeping c \<sigma> (withLightness c p \<sigma>)"
    by (rule u [where W = "\<lambda>v. v\<lparr>hsl_l := p\<rparr>" and A = "\<lambda>v. alpha (colors \<sigma> ! c)"])
       (simp add: withLightness_cases [OF c])
  moreover have "new_keeping c \<sigma> (mixWith c d w \<sigma>)"
    if "d < length (colors \<sigma>)" "result (get_hex c \<sigma>) = Inr hA" "hex6 hA"
      "result (get_hex d \<sigma>) = Inr hB" "hex6 hB" "0 \<le> w" "w \<le> 100"
    unfolding mixWith_def
    using that mix_new_keeping [OF assms(1), of d hA hB w]
    by (simp add: result_get_hex c)
  ultimately show ?thesis by (simp add: lighten_def desaturate_def)
qed

text \<open>Every transformation on \<^verbatim>\<open>BLACK\<close>, and \<^verbatim>\<open>BLACK.mixWith(WHITE, 50)\<close>.\<close>

theorem transformations_keep_receiver_witness:
  "new_keeping BLACK initial (darken BLACK 10 initial) \<and>
   new_keeping BLACK initial (lighten BLACK 10 initial) \<and>
   new_keeping BLACK initial (saturate BLACK 10 initial) \<and>
   new_keeping BLACK initial (desaturate BLACK 10 initial) \<and>
   new_keeping BLACK initial (shiftHue BLACK 10 initial) \<and>
   new_keeping BLACK initial (withAlpha BLACK 10 initial) \<and>
   new_keeping BLACK initial (withHue BLACK 10 initial) \<and>
   new_keeping BLACK initial (withSaturation BLACK 10 initial) \<and>
   new_keeping BLACK initial (withLightness BLACK 10 initial) \<and>
   new_keeping BLACK initial (mixWith BLACK WHITE 50 initial)"
proof -
  have h: "result (get_hex BLACK initial) = Inr ''000000''" "result (get_hex WHITE initial) = Inr ''ffffff''"
    by (simp_all add: result_get_hex initial_views)
  have v: "hsl_of BLACK initial = Inr \<lparr>hsl_h = 0, hsl_s = 0, hsl_l = 0\<rparr>"
    by (simp add: hsl_of_view initial_views)
  show ?thesis
    using transformations_keep_receiver [OF initial_views(9) v,
        of 10 WHITE "''000000''" "''ffffff''" 50]
      h initial_views
    by simp
qed

subsection \<open>Transformations return a colour backed by HSL\<close>

text \<open>
  Claim C10. Every colour that \<^verbatim>\<open>clone\<close> or a transformation (\<^verbatim>\<open>darken\<close>, \<^verbatim>\<open>lighten\<close>,
  \<^verbatim>\<open>saturate\<close>, \<^verbatim>\<open>desaturate\<close>, \<^verbatim>\<open>shiftHue\<close>, \<^verbatim>\<open>withAlpha\<close>, \<^verbatim>\<open>withHue\<close>,
  \<^verbatim>\<open>withSaturation\<close>, \<^verbatim>\<open>withLightness\<close>, \<^verbatim>\<open>mixWith\<close>) returns has its HSL container set
  and no other; in the store the call leaves, \<^verbatim>\<open>toJSON\<close> on it gives the keys
  \<^verbatim>\<open>h\<close>, \<^verbatim>\<open>s\<close>, \<^verbatim>\<open>l\<close>, \<^verbatim>\<open>alpha\<close> and \<^verbatim>\<open>toString\<close> the \<^verbatim>\<open>hsla(...)\<close> form, whatever
  the receiver was made from.
\<close>

theorem transformations_hsl_backed:
  assumes "c < length (colors \<sigma>)"
  shows "(clone c \<sigma> = Inr (k, \<sigma>') \<longrightarrow> hsl_only k \<sigma>') \<and>
     (darken c p \<sigma> = Inr (k, \<sigma>') \<longrightarrow> hsl_only k \<sigma>') \<and>
     (lighten c p \<sigma> = Inr (k, \<sigma>') \<longrightarrow> hsl_only k \<sigma>') \<and>
     (saturate c p \<sigma> = Inr (k, \<sigma>') \<longrightarrow> hsl_only k \<sigma>') \<and>
     (desaturate c p \<sigma> = Inr (k, \<sigma>') \<longrightarrow> hsl_only k \<sigma>') \<and>
     (shiftHue c p \<sigma> = Inr (k, \<sigma>') \<longrightarrow> hsl_only k \<sigma>') \<and>
     (withAlpha c p \<sigma> = Inr (k, \<sigma>') \<longrightarrow> hsl_only k \<sigma>') \<and>
     (withHue c p \<sigma> = Inr (k, \<sigma>') \<longrightarrow> hsl_only k \<sigma>') \<and>
     (withSaturation c p \<sigma> = Inr (k, \<sigma>') \<longrightarrow> hsl_only k \<sigma>') \<and>
     (withLightness c p \<sigma> = Inr (k, \<sigma>') \<longrightarrow> hsl_only k \<sigma>') \<and>
     (mixWith c d p \<sigma> = Inr (k, \<sigma>') \<longrightarrow> hsl_only k \<sigma>')"
proof (intro conjI impI)
  assume "clone c \<sigma> = Inr (k, \<sigma>')"
  then show "hsl_only k \<sigma>'"
    using unary_hsl_only [OF assms, of "\<lambda>v. v" "\<lambda>v. alpha (colors \<sigma> ! c)" k \<sigma>']
    by (simp add: clone_cases [OF assms])
next
  assume "darken c p \<sigma> = Inr (k, \<sigma>')"
  then show "hsl_only k \<sigma>'"
    using unary_hsl_only [OF assms, of _ "\<lambda>v. alpha (colors \<sigma> ! c)" k \<sigma>']
    by (simp add: darken_cases [OF assms])
next
  assume "lighten c p \<sigma> = Inr (k, \<sigma>')"
  then show "hsl_only k \<sigma>'"
    using unary_hsl_only [OF assms, of _ "\<lambda>v. alpha (colors \<sigma> ! c)" k \<sigma>']
    by (simp add: lighten_def darken_cases [OF assms])
next
  assume "saturate c p \<sigma> = Inr (k, \<sigma>')"
  then show "hsl_only k \<sigma>'"
    using unary_hsl_only [OF assms, of _ "\<lambda>v. alpha (colors \<sigma> ! c)" k \<sigma>']
    by (simp add: saturate_cases [OF assms])
next
  assume "desaturate c p \<sigma> = Inr (k, \<sigma>')"
  then show "hsl_only k \<sigma>'"
    using unary_hsl_only [OF assms, of _ "\<lambda>v. alpha (colors \<sigma> ! c)" k \<sigma>']
    by (simp add: desaturate_def saturate_cases [OF assms])
next
  assume "shiftHue c p \<sigma> = Inr (k, \<sigma>')"
  then show "hsl_only k \<sigma>'"
    using unary_hsl_only [OF assms, of _ "\<lambda>v. alpha (colors \<sigma> ! c)" k \<sigma>']
    by (simp add: shiftHue_cases [OF assms])
next
  assume "withAlpha c p \<sigma> = Inr (k, \<sigma>')"
  then show "hsl_only k \<sigma>'"
    using unary_hsl_only [OF assms, of "\<lambda>v. v" "\<lambda>v. p" k \<sigma>']
    by (simp add: withAlpha_cases [OF assms])
next
  assume "withHue c p \<sigma> = Inr (k, \<sigma>')"
  then show "hsl_only k \<sigma>'"
    using unary_hsl_only [OF assms, of "\<lambda>v. v\<lparr>hsl_h := p\<rparr>" "\<lambda>v. alpha (colors \<sigma> ! c)" k \<sigma>']
    by (simp add: withHue_cases [OF assms])
next
  assume "withSaturation c p \<sigma> = Inr (k, \<sigma>')"
  then show "hsl_only k \<sigma>'"
    using unary_hsl_only [OF assms, of "\<lambda>v. v\<lparr>hsl_s := p\<rparr>" "\<lambda>v. alpha (colors \<sigma> ! c)" k \<sigma>']
    by (simp add: withSaturation_cases [OF assms])
next
  assume "withLightness c p \<sigma> = Inr (k, \<sigma>')"
  then show "hsl_only k \<sigma>'"
    using unary_hsl_only [OF assms, of "\<lambda>v. v\<lparr>hsl_l := p\<rparr>" "\<lambda>v. alpha (colors \<sigma> ! c)" k \<sigma>']
    by (simp add: withLightness_cases [OF assms])
next
  assume "mixWith c d p \<sigma> = Inr (k, \<sigma>')"
  then show "hsl_only k \<sigma>'"
    using mix_hsl_only [of c d p \<sigma> k \<sigma>'] by (simp add: mixWith_def)
qed

text \<open>Every operation on \<^verbatim>\<open>BLACK\<close>, which is backed by a hex string.\<close>

theorem transformations_hsl_backed_witness:
  "(\<exists>k \<sigma>'. clone BLACK initial = Inr (k, \<sigma>') \<and> hsl_only k \<sigma>') \<and>
   (\<exists>k \<sigma>'. darken BLACK 10 initial = Inr (k, \<sigma>') \<and> hsl_only k \<sigma>') \<and>
   (\<exists>k \<sigma>'. lighten BLACK 10 initial = Inr (k, \<sigma>') \<and> hsl_only k \<sigma>') \<and>
   (\<exists>k \<sigma>'. saturate BLACK 10 initial = Inr (k, \<sigma>') \<and> hsl_only k \<sigma>') \<and>
   (\<exists>k \<sigma>'. desaturate BLACK 10 initial = Inr (k, \<sigma>') \<and> hsl_only k \<sigma>') \<and>
   (\<exists>k \<sigma>'. shiftHue BLACK 10 initial = Inr (k, \<sigma>') \<and> hsl_only k \<sigma>') \<and>
   (\<exists>k \<sigma>'. withAlpha BLACK 10 initial = Inr (k, \<sigma>') \<and> hsl_only k \<sigma>') \<and>
   (\<exists>k \<sigma>'. withHue BLACK 10 initial = Inr (k, \<sigma>') \<and> hsl_only k \<sigma>') \<and>
   (\<exists>k \<sigma>'. withSaturation BLACK 10 initial = Inr (k, \<sigma>') \<and> hsl_only k \<sigma>') \<and>
   (\<exists>k \<sigma>'. withLightness BLACK 10 initial = Inr (k, \<sigma>') \<and> hsl_only k \<sigma>') \<and>
   (\<exists>k \<sigma>'. mixWith BLACK WHITE 50 initial = Inr (k, \<sigma>') \<and> hsl_only k \<sigma>')"
proof -
  note c = initial_views(5)
  obtain v where v: "hslView (colors initial ! BLACK) (hsls initial) = Inr v"
    using backed_hslView [OF initial_views(7)] by blast
  have h: "hexView (colors initial ! BLACK) (hsls initial) = Inr ''000000''"
    "hexView (colors initial ! WHITE) (hsls initial) = Inr ''ffffff''"
    by (simp_all add: initial_views)
  have w: "(0::real) \<le> 50" "(50::real) \<le> 100" by simp_all
  note m = mix_eq [OF initial_views(5) initial_views(6) h(1) initial_views(13) h(2) initial_views(14) w]
  note t = transformations_hsl_backed [OF c]
  have "\<exists>k \<sigma>'. clone BLACK initial = Inr (k, \<sigma>') \<and> hsl_only k \<sigma>'"
    using t [where p = 10] by (simp add: clone_cases [OF c] v)
  moreover have "\<exists>k \<sigma>'. darken BLACK 10 initial = Inr (k, \<sigma>') \<and> hsl_only k \<sigma>'"
    using t [where p = 10] by (simp add: darken_cases [OF c] v)
  moreover have "\<exists>k \<sigma>'. lighten BLACK 10 initial = Inr (k, \<sigma>') \<and> hsl_only k \<sigma>'"
    using t [where p = 10] by (simp add: lighten_def darken_cases [OF c] v)
  moreover have "\<exists>k \<sigma>'. saturate BLACK 10 initial = Inr (k, \<sigma>') \<and> hsl_only k \<sigma>'"
    using t [where p = 10] by (simp add: saturate_cases [OF c] v)
  moreover have "\<exists>k \<sigma>'. desaturate BLACK 10 initial = Inr (k, \<sigma>') \<and> hsl_only k \<sigma>'"
    using t [where p = 10] by (simp add: desaturate_def saturate_cases [OF c] v)
  moreover have "\<exists>k \<sigma>'. shiftHue BLACK 10 initial = Inr (k, \<sigma>') \<and> hsl_only k \<sigma>'"
    using t [where p = 10] by (simp add: shiftHue_cases [OF c] v)
  moreover have "\<exists>k \<sigma>'. withAlpha BLACK 10 initial = Inr (k, \<sigma>') \<and> hsl_only k \<sigma>'"
    using t [where p = 10] by (simp add: withAlpha_cases [OF c] v)
  moreover have "\<exists>k \<sigma>'. withHue BLACK 10 initial = Inr (k, \<sigma>') \<and> hsl_only k \<sigma>'"
    using t [where p = 10] by (simp add: withHue_cases [OF c] v)
  moreover have "\<exists>k \<sigma>'. withSaturation BLACK 10 initial = Inr (k, \<sigma>') \<and> hsl_only k \<sigma>'"
    using t [where p = 10] by (simp add: withSaturation_cases [OF c] v)
  moreover have "\<exists>k \<sigma>'. withLightness BLACK 10 initial = Inr (k, \<sigma>') \<and> hsl_only k \<sigma>'"
    using t [where p = 10] by (simp add: withLightness_cases [OF c] v)
  moreover have "\<exists>k \<sigma>'. mixWith BLACK WHITE 50 initial = Inr (k, \<sigma>') \<and> hsl_only k \<sigma>'"
    using t [where p = 50 and d = WHITE] by (simp add: mixWith_def m)
  ultimately show ?thesis by blast
qed

end
